theory Spec2Isabelle
  imports Complex_Main "HOL-Library.Word" "HOL-Library.Sublist"
begin

section \<open>JavaScript values\<close>

subsection \<open>Numbers\<close>

text \<open>
  A JavaScript number is an IEEE 754 double. A finite double is modelled by the
  rational it denotes; \<open>NaN\<close> and the two infinities are values of their own. The
  operators \<open>+\<close> and \<open>/\<close> return the exact result rounded to the nearest double, ties
  to the even significand, with gradual underflow and with overflow to an infinity:
  \<open>fl\<close> is that rounding. The sign of zero is not modelled: every divisor in the
  program is an array length, a pair counter or the literal 2, so a zero divisor is
  always the positive zero.
\<close>

datatype number = NaN | NegInf | Fin rat | PosInf

text \<open>Rounding to the nearest integer, a tie going to the even one.\<close>

definition round_even :: "rat \<Rightarrow> int" where
  "round_even x =
     (let f = \<lfloor>x\<rfloor>; d = x - of_int f
      in if d < 1 / 2 then f
         else if 1 / 2 < d then f + 1
         else if even f then f else f + 1)"

text \<open>
  The binary exponent of a positive magnitude \<open>a\<close>: the least \<open>e\<close> from \<open>-1022\<close> on
  with \<open>a < 2^(e+1)\<close>, looked for up to \<open>1024\<close>. Below \<open>2^(-1022)\<close> the exponent stays
  \<open>-1022\<close> (the subnormal range).
\<close>

fun find_exp :: "nat \<Rightarrow> int \<Rightarrow> rat \<Rightarrow> int" where
  "find_exp 0 e a = e"
| "find_exp (Suc n) e a = (if a < power_int 2 (e + 1) then e else find_exp n (e + 1) a)"

definition exponent :: "rat \<Rightarrow> int" where
  "exponent a = find_exp 2046 (- 1022) a"

text \<open>A double has a significand of 53 bits: the magnitude is rounded to a multiple of
  \<open>2^(e-52)\<close>, and a result of \<open>2^1024\<close> or more is an infinity.\<close>

definition fl :: "rat \<Rightarrow> number" where
  "fl q =
     (if q = 0 then Fin 0
      else
        let a = \<bar>q\<bar>;
            e = exponent a;
            u = power_int 2 (e - 52);
            r = of_int (round_even (a / u)) * u
        in if power_int 2 1024 \<le> r then (if 0 < q then PosInf else NegInf)
           else Fin (if 0 < q then r else - r))"

text \<open>A number is a double when rounding leaves it as it is. The operations below
  return doubles whatever they are given.\<close>

fun is_double :: "number \<Rightarrow> bool" where
  "is_double (Fin q) = (fl q = Fin q)"
| "is_double a = True"

fun num_add :: "number \<Rightarrow> number \<Rightarrow> number" where
  "num_add NaN b = NaN"
| "num_add a NaN = NaN"
| "num_add (Fin a) (Fin b) = fl (a + b)"
| "num_add PosInf NegInf = NaN"
| "num_add NegInf PosInf = NaN"
| "num_add PosInf b = PosInf"
| "num_add a PosInf = PosInf"
| "num_add NegInf b = NegInf"
| "num_add a NegInf = NegInf"

fun num_div :: "number \<Rightarrow> number \<Rightarrow> number" where
  "num_div NaN b = NaN"
| "num_div a NaN = NaN"
| "num_div (Fin a) (Fin b) =
     (if b \<noteq> 0 then fl (a / b)
      else if a = 0 then NaN
      else if 0 < a then PosInf else NegInf)"
| "num_div (Fin a) b = Fin 0"
| "num_div PosInf (Fin b) = (if 0 \<le> b then PosInf else NegInf)"
| "num_div NegInf (Fin b) = (if 0 \<le> b then NegInf else PosInf)"
| "num_div a b = NaN"

text \<open>The relational operator \<open><=\<close>: every comparison with \<open>NaN\<close> is false.\<close>

fun num_le :: "number \<Rightarrow> number \<Rightarrow> bool" where
  "num_le NaN b = False"
| "num_le a NaN = False"
| "num_le NegInf b = True"
| "num_le a PosInf = True"
| "num_le (Fin a) (Fin b) = (a \<le> b)"
| "num_le a b = False"

fun num_min2 :: "number \<Rightarrow> number \<Rightarrow> number" where
  "num_min2 NaN b = NaN"
| "num_min2 a NaN = NaN"
| "num_min2 a b = (if num_le a b then a else b)"

fun num_max2 :: "number \<Rightarrow> number \<Rightarrow> number" where
  "num_max2 NaN b = NaN"
| "num_max2 a NaN = NaN"
| "num_max2 a b = (if num_le a b then b else a)"

text \<open>\<open>Math.min(...xs)\<close> and \<open>Math.max(...xs)\<close>: the empty call returns the neutral
  element, any \<open>NaN\<close> argument makes the result \<open>NaN\<close>.\<close>

definition Math_min :: "number list \<Rightarrow> number" where
  "Math_min xs = foldl num_min2 PosInf xs"

definition Math_max :: "number list \<Rightarrow> number" where
  "Math_max xs = foldl num_max2 NegInf xs"

text \<open>Truthiness of a number, as \<open>if (n)\<close> tests it: zero and \<open>NaN\<close> are falsy.\<close>

fun num_truthy :: "number \<Rightarrow> bool" where
  "num_truthy NaN = False"
| "num_truthy (Fin a) = (a \<noteq> 0)"
| "num_truthy a = True"

subsection \<open>Strings\<close>

text \<open>
  A JavaScript string is a sequence of UTF-16 code units; \<open>length\<close>, \<open>split("")\<close> and
  a regular expression without the \<open>u\<close> flag all work on code units. \<open>lit\<close> writes
  an ASCII literal.
\<close>

type_synonym code_unit = "16 word"
type_synonym jstring = "code_unit list"

definition lit :: "string \<Rightarrow> jstring" where
  "lit s = map of_char s"

abbreviation TAB :: code_unit where "TAB \<equiv> 0x09"
abbreviation LF :: code_unit where "LF \<equiv> 0x0A"
abbreviation CR :: code_unit where "CR \<equiv> 0x0D"
abbreviation SP :: code_unit where "SP \<equiv> 0x20"

text \<open>\<open>s.split(sep)\<close> for a non-empty separator, scanning left to right, and
  \<open>parts.join(sep)\<close>.\<close>

function split_from :: "jstring \<Rightarrow> jstring \<Rightarrow> jstring \<Rightarrow> jstring list" where
  "split_from sep acc [] = [acc]"
| "split_from sep acc (c # cs) =
     (if sep \<noteq> [] \<and> prefix sep (c # cs)
      then acc # split_from sep [] (drop (length sep) (c # cs))
      else split_from sep (acc @ [c]) cs)"
  by pat_completeness auto
termination
  by (relation "measure (\<lambda>(sep, acc, s). length s)") auto

definition str_split :: "jstring \<Rightarrow> jstring \<Rightarrow> jstring list" where
  "str_split s sep = split_from sep [] s"

fun str_join :: "jstring list \<Rightarrow> jstring \<Rightarrow> jstring" where
  "str_join [] sep = []"
| "str_join [p] sep = p"
| "str_join (p # q # ps) sep = p @ sep @ str_join (q # ps) sep"

text \<open>
  \<open>toLowerCase\<close> on the code units of the ASCII range. The program lowercases only the
  output of \<open>sanitizeText\<close>, which holds no code unit above \<open>0x7F\<close> (lemma
  \<open>sanitize_ascii\<close> below), so the Unicode case tables are never consulted.
\<close>

definition lower_unit :: "code_unit \<Rightarrow> code_unit" where
  "lower_unit c = (if 0x41 \<le> c \<and> c \<le> 0x5A then c + 0x20 else c)"

definition toLowerCase :: "jstring \<Rightarrow> jstring" where
  "toLowerCase s = map lower_unit s"

text \<open>
  \<open>trim\<close> removes leading and trailing white space and line terminators, as
  ECMAScript lists them.
\<close>

definition is_space :: "code_unit \<Rightarrow> bool" where
  "is_space c \<longleftrightarrow>
     c \<in> {0x09, 0x0A, 0x0B, 0x0C, 0x0D, 0x20, 0xA0, 0x1680, 0x2028, 0x2029,
          0x202F, 0x205F, 0x3000, 0xFEFF} \<or> (0x2000 \<le> c \<and> c \<le> 0x200A)"

definition trim :: "jstring \<Rightarrow> jstring" where
  "trim s = rev (dropWhile is_space (rev (dropWhile is_space s)))"

subsection \<open>Dynamically typed values and errors\<close>

text \<open>
  Objects are association lists of own properties, read with \<open>map_of\<close>; a function
  value is an opaque reference. Every \<open>throw\<close> of the program and every run-time
  error of the language that the program can meet is a value of \<open>error\<close>.
\<close>

datatype jsval =
    Undefined
  | Null
  | Bool bool
  | Num number
  | Str jstring
  | Arr "jsval list"
  | Obj "(jstring \<times> jsval) list"
  | Fun nat

datatype error = Error string | TypeError | ReferenceError

datatype jstype = T_undefined | T_object | T_boolean | T_number | T_string | T_function

fun typeof :: "jsval \<Rightarrow> jstype" where
  "typeof Undefined = T_undefined"
| "typeof Null = T_object"
| "typeof (Bool b) = T_boolean"
| "typeof (Num n) = T_number"
| "typeof (Str s) = T_string"
| "typeof (Arr vs) = T_object"
| "typeof (Obj ps) = T_object"
| "typeof (Fun f) = T_function"

fun truthy :: "jsval \<Rightarrow> bool" where
  "truthy Undefined = False"
| "truthy Null = False"
| "truthy (Bool b) = b"
| "truthy (Num n) = num_truthy n"
| "truthy (Str s) = (s \<noteq> [])"
| "truthy v = True"

fun isArray :: "jsval \<Rightarrow> bool" where
  "isArray (Arr vs) = True"
| "isArray v = False"

text \<open>Reading a property: a \<open>TypeError\<close> on \<open>null\<close> and \<open>undefined\<close>, the own
  property of an object, \<open>undefined\<close> when it is missing. The validators read
  properties of objects and of \<open>null\<close> only, and none of the names they read is
  inherited from \<open>Object.prototype\<close>.\<close>

fun get_prop :: "jsval \<Rightarrow> string \<Rightarrow> error + jsval" where
  "get_prop Undefined k = Inl TypeError"
| "get_prop Null k = Inl TypeError"
| "get_prop (Obj ps) k = (case map_of ps (lit k) of Some v \<Rightarrow> Inr v | None \<Rightarrow> Inr Undefined)"
| "get_prop v k = Inr Undefined"

section \<open>Sanitizer\<close>

text \<open>
  \<open>String.prototype.normalize('NFD')\<close> belongs to the host, not to the repository; it
  is the parameter \<open>nfd\<close> of everything that sanitizes. Two facts of Unicode
  normalisation are used where a theorem needs them: a string of ASCII code units is
  its own normal form, and decomposition introduces neither a tab nor a line feed.
\<close>

definition is_ascii :: "jstring \<Rightarrow> bool" where
  "is_ascii s = list_all (\<lambda>c. c \<le> 0x7F) s"

definition nfd_host :: "(jstring \<Rightarrow> jstring) \<Rightarrow> bool" where
  "nfd_host nfd \<longleftrightarrow>
     (\<forall>s. is_ascii s \<longrightarrow> nfd s = s) \<and>
     (\<forall>s. TAB \<notin> set s \<and> LF \<notin> set s \<longrightarrow> TAB \<notin> set (nfd s) \<and> LF \<notin> set (nfd s))"

text \<open>A host that decomposes only \<open>U+00E9\<close> (e with acute) and leaves every other code
  unit alone: it agrees with \<open>normalize('NFD')\<close> on strings over ASCII and that letter,
  and serves to evaluate the program on concrete inputs.\<close>

definition nfd_sample :: "jstring \<Rightarrow> jstring" where
  "nfd_sample s = concat (map (\<lambda>c. if c = 0xE9 then [0x65, 0x301] else [c]) s)"

definition is_terminator :: "code_unit \<Rightarrow> bool" where
  "is_terminator c \<longleftrightarrow> c = 0x21 \<or> c = 0x3F \<or> c = 0x2E"

text \<open>\<open>replace(/  +/g, ' ')\<close>: every maximal run of two or more spaces becomes one.\<close>

fun collapse_spaces :: "jstring \<Rightarrow> jstring" where
  "collapse_spaces [] = []"
| "collapse_spaces [c] = [c]"
| "collapse_spaces (c # d # cs) =
     (if c = SP \<and> d = SP then collapse_spaces (d # cs) else c # collapse_spaces (d # cs))"

text \<open>Whether a string holds two adjacent spaces.\<close>

fun double_space :: "jstring \<Rightarrow> bool" where
  "double_space [] = False"
| "double_space [c] = False"
| "double_space (c # d # cs) = ((c = SP \<and> d = SP) \<or> double_space (d # cs))"

definition is_combining :: "code_unit \<Rightarrow> bool" where
  "is_combining c \<longleftrightarrow> 0x0300 \<le> c \<and> c \<le> 0x036F"

definition convertToLatinEquivalent :: "(jstring \<Rightarrow> jstring) \<Rightarrow> jstring \<Rightarrow> jstring" where
  "convertToLatinEquivalent nfd inputString =
     (let normalizedString = filter (\<lambda>c. \<not> is_combining c) (nfd inputString);
          latinEquivalentString = filter (\<lambda>c. c \<le> 0x7F) normalizedString
      in latinEquivalentString)"

text \<open>
  The noise class \<open>[0-9!"#$%&'()*+,-./:;<=>?@[\]^_`{|}~]\<close>: the digits, \<open>0x21\<close> to
  \<open>0x2B\<close>, the range \<open>,-.\<close> (\<open>0x2C\<close> to \<open>0x2E\<close>), the slash, \<open>0x3A\<close> to \<open>0x40\<close>,
  the brackets (the backslash only escapes the closing one and is not in the class),
  \<open>^ _ `\<close> and \<open>{ | } ~\<close>.
\<close>

definition is_noise :: "code_unit \<Rightarrow> bool" where
  "is_noise c \<longleftrightarrow>
     (0x30 \<le> c \<and> c \<le> 0x39) \<or> (0x21 \<le> c \<and> c \<le> 0x2B) \<or> (0x2C \<le> c \<and> c \<le> 0x2E) \<or>
     c = 0x2F \<or> (0x3A \<le> c \<and> c \<le> 0x40) \<or> c = 0x5B \<or> c = 0x5D \<or>
     c = 0x5E \<or> c = 0x5F \<or> c = 0x60 \<or> (0x7B \<le> c \<and> c \<le> 0x7E)"

definition sanitize_string :: "(jstring \<Rightarrow> jstring) \<Rightarrow> jstring \<Rightarrow> jstring" where
  "sanitize_string nfd sample0 =
     (let sample = str_join (str_split sample0 [CR, LF]) [SP];
          sample = str_join (str_split sample [LF]) [SP];
          sample = str_join (str_split sample [TAB]) [SP];
          sample = map (\<lambda>c. if is_terminator c then SP else c) sample;
          sample = collapse_spaces sample;
          sample = convertToLatinEquivalent nfd sample;
          sample = filter (\<lambda>c. \<not> is_noise c) sample
      in sample)"

definition sanitizeText :: "(jstring \<Rightarrow> jstring) \<Rightarrow> jsval \<Rightarrow> error + jstring" where
  "sanitizeText nfd sample0 =
     (let sample = (if truthy sample0 then sample0 else Str [])
      in case sample of
           Str s \<Rightarrow> Inr (sanitize_string nfd s)
         | _ \<Rightarrow> Inl (Error ''Input sample must be a string''))"

section \<open>Score engine\<close>

text \<open>
  A matrix entry \<open>{x: letterPair, y: count}\<close> is the pair \<open>(x, y)\<close>; the scoring code
  is modelled on matrices of that shape, which is what \<open>isValidMatrix\<close> admits.
\<close>

type_synonym entry = "jstring \<times> number"

text \<open>\<open>convertJSONMatrixIntoMap\<close>: \<open>map.set(item.x, item.y)\<close> for each item in order, so
  the last entry of a key is the one the map keeps.\<close>

definition convertJSONMatrixIntoMap :: "entry list \<Rightarrow> (jstring \<rightharpoonup> number)" where
  "convertJSONMatrixIntoMap jsonArray =
     foldl (\<lambda>map item. map(fst item \<mapsto> snd item)) Map.empty jsonArray"

record score_state =
  modelCache :: "jstring \<rightharpoonup> number"
  pairCount :: nat
  totalScore :: number

text \<open>The body of the scoring loop for one letter pair. \<open>modelFind\<close> starts undefined
  (\<open>None\<close>) in every iteration; a falsy find (undefined, zero, \<open>NaN\<close>) adds nothing.
  \<open>pairCount\<close> counts up to less than the length of a string, which is below \<open>2^53\<close>,
  where counting by one is exact in doubles: it is a natural number.\<close>

definition score_step ::
    "(jstring \<rightharpoonup> number) \<Rightarrow> bool \<Rightarrow> jstring \<Rightarrow> score_state \<Rightarrow> score_state" where
  "score_step matrixMap useCache letterPair st =
     (let (modelFind, cache) =
            (if useCache \<and> modelCache st letterPair \<noteq> None
             then (modelCache st letterPair, modelCache st)
             else if matrixMap letterPair \<noteq> None
             then (matrixMap letterPair,
                   if useCache then (modelCache st)(letterPair := matrixMap letterPair)
                   else modelCache st)
             else (None, modelCache st));
          pairCount' = pairCount st + 1;
          totalScore' =
            (case modelFind of
               Some w \<Rightarrow> if num_truthy w then num_add (totalScore st) w else totalScore st
             | None \<Rightarrow> totalScore st)
      in \<lparr>modelCache = cache, pairCount = pairCount', totalScore = totalScore'\<rparr>)"

text \<open>The loop \<open>for (let x = 0; x < split.length; x++)\<close>, leaving at the \<open>break\<close> when
  \<open>split[x+1]\<close> is undefined. A one-unit string is never falsy, so the \<open>break\<close> is taken
  exactly at the last index.\<close>

function score_loop ::
    "jstring \<Rightarrow> (jstring \<rightharpoonup> number) \<Rightarrow> bool \<Rightarrow> nat \<Rightarrow> score_state \<Rightarrow> score_state" where
  "score_loop split matrixMap useCache x st =
     (if x < length split then
        (if \<not> (x + 1 < length split) then st
         else score_loop split matrixMap useCache (x + 1)
                (score_step matrixMap useCache [split ! x, split ! (x + 1)] st))
      else st)"
  by pat_completeness auto
termination
  by (relation "measure (\<lambda>(split, matrixMap, useCache, x, st). length split - x)") auto

declare score_loop.simps [simp del]

definition assignScore ::
    "(jstring \<Rightarrow> jstring) \<Rightarrow> jsval \<Rightarrow> entry list \<Rightarrow> bool \<Rightarrow> error + number" where
  "assignScore nfd test matrix useCache =
     (case sanitizeText nfd test of
        Inl e \<Rightarrow> Inl e
      | Inr sanitized \<Rightarrow>
          (let test = str_join (str_split sanitized [LF]) [SP];
               split = toLowerCase test;
               matrixMap = convertJSONMatrixIntoMap matrix;
               st = score_loop split matrixMap useCache 0
                      \<lparr>modelCache = Map.empty, pairCount = 0, totalScore = Fin 0\<rparr>
           in Inr (num_div (totalScore st) (Fin (of_nat (pairCount st))))))"

text \<open>What one pair adds to the running total, read off the table alone, and the
  relation between the transient cache and the table that the loop maintains.\<close>

definition score_acc :: "(jstring \<rightharpoonup> number) \<Rightarrow> number \<Rightarrow> jstring \<Rightarrow> number" where
  "score_acc table t p =
     (case table p of Some w \<Rightarrow> if num_truthy w then num_add t w else t | None \<Rightarrow> t)"

definition cache_ok :: "(jstring \<rightharpoonup> number) \<Rightarrow> (jstring \<rightharpoonup> number) \<Rightarrow> bool" where
  "cache_ok table c \<longleftrightarrow> (\<forall>p w. c p = Some w \<longrightarrow> table p = Some w)"

text \<open>The adjacent pairs of a character sequence, and the weight the table gives one.\<close>

definition bigrams :: "jstring \<Rightarrow> jstring list" where
  "bigrams cs = map (\<lambda>(a, b). [a, b]) (zip cs (tl cs))"

definition weight :: "(jstring \<rightharpoonup> number) \<Rightarrow> jstring \<Rightarrow> number" where
  "weight table p = (case table p of Some w \<Rightarrow> w | None \<Rightarrow> Fin 0)"

text \<open>The mathematical sum of a list of numbers, without rounding; it serves to state
  properties and is no operation of the program.\<close>

fun num_plus :: "number \<Rightarrow> number \<Rightarrow> number" where
  "num_plus NaN b = NaN"
| "num_plus a NaN = NaN"
| "num_plus (Fin a) (Fin b) = Fin (a + b)"
| "num_plus PosInf NegInf = NaN"
| "num_plus NegInf PosInf = NaN"
| "num_plus PosInf b = PosInf"
| "num_plus a PosInf = PosInf"
| "num_plus NegInf b = NegInf"
| "num_plus a NegInf = NegInf"

definition num_sum :: "number list \<Rightarrow> number" where
  "num_sum ws = foldr num_plus ws (Fin 0)"

fun positive :: "number \<Rightarrow> bool" where
  "positive (Fin a) = (0 < a)"
| "positive PosInf = True"
| "positive a = False"

section \<open>Structural validators\<close>

definition andThen :: "error + 'a \<Rightarrow> ('a \<Rightarrow> error + 'b) \<Rightarrow> error + 'b" where
  "andThen r f = (case r of Inl e \<Rightarrow> Inl e | Inr v \<Rightarrow> f v)"

text \<open>The callback of \<open>matrix.some\<close>: true when the entry is malformed (it sets
  \<open>errorState\<close>), falsy otherwise. \<open>typeof null\<close> is \<open>"object"\<close>, so a \<open>null\<close> entry
  reaches \<open>m.x\<close> and throws.\<close>

definition matrix_entry_bad :: "jsval \<Rightarrow> error + bool" where
  "matrix_entry_bad m =
     (if typeof m \<noteq> T_object \<or> isArray m then Inr True
      else andThen (get_prop m ''x'') (\<lambda>x.
        if typeof x \<noteq> T_string \<or> (case x of Str s \<Rightarrow> length s \<noteq> 2 | _ \<Rightarrow> True) then Inr True
        else andThen (get_prop m ''y'') (\<lambda>y.
          if typeof y \<noteq> T_number then Inr True else Inr False)))"

text \<open>\<open>some\<close> stops at the first entry whose callback returns true.\<close>

fun some_bad :: "jsval list \<Rightarrow> error + bool" where
  "some_bad [] = Inr False"
| "some_bad (m # ms) =
     (case matrix_entry_bad m of
        Inl e \<Rightarrow> Inl e
      | Inr errorState \<Rightarrow> if errorState then Inr True else some_bad ms)"

definition isValidMatrix :: "jsval \<Rightarrow> error + bool" where
  "isValidMatrix matrix =
     (if \<not> truthy matrix \<or> \<not> isArray matrix then Inr False
      else case matrix of
             Arr ms \<Rightarrow> andThen (some_bad ms) (\<lambda>errorState. Inr (\<not> errorState))
           | _ \<Rightarrow> Inr False)"

definition stats_numeric :: "jsval \<Rightarrow> error + bool" where
  "stats_numeric s =
     andThen (get_prop s ''min'') (\<lambda>mn.
     andThen (get_prop s ''max'') (\<lambda>mx.
     andThen (get_prop s ''avg'') (\<lambda>av.
       Inr (\<not> (typeof mn \<noteq> T_number \<or> typeof mx \<noteq> T_number \<or> typeof av \<noteq> T_number)))))"

definition isValidModel :: "jsval \<Rightarrow> error + bool" where
  "isValidModel model =
     (if \<not> truthy model \<or> typeof model \<noteq> T_object \<or> isArray model then Inr False
      else andThen (get_prop model ''matrix'') (\<lambda>mx.
           andThen (isValidMatrix mx) (\<lambda>ok.
        if \<not> ok then Inr False
        else andThen (get_prop model ''baseline'') (\<lambda>bl.
        if \<not> truthy bl \<or> typeof bl \<noteq> T_object \<or> isArray bl then Inr False
        else andThen (get_prop bl ''good'') (\<lambda>g.
        if \<not> truthy g \<or> typeof g \<noteq> T_object \<or> isArray g then Inr False
        else andThen (stats_numeric g) (\<lambda>g_ok.
        if \<not> g_ok then Inr False
        else andThen (get_prop bl ''bad'') (\<lambda>b.
        if \<not> truthy b \<or> typeof b \<noteq> T_object \<or> isArray b then Inr False
        else andThen (stats_numeric b) (\<lambda>b_ok.
        if \<not> b_ok then Inr False else Inr True))))))))"

section \<open>The scorer of index.js\<close>

text \<open>
  \<open>index.js\<close> has its own \<open>assignScore\<close>. Its cache is the free identifier
  \<open>modelCache\<close>, which the file never declares: \<open>genv\<close> is what that identifier is
  bound to in the global scope, \<open>None\<close> when nothing binds it, and reading it then is a
  \<open>ReferenceError\<close>. A miss is looked up with \<open>matrix.find\<close> (the first entry of the
  key) and the find, also an undefined one, is stored under the pair.
\<close>

record indexjs_state =
  cache_g :: "(jstring \<rightharpoonup> entry) option"
  pairCount_i :: nat
  totalScore_i :: number

definition indexjs_step ::
    "entry list \<Rightarrow> bool \<Rightarrow> jstring \<Rightarrow> indexjs_state \<Rightarrow> error + indexjs_state" where
  "indexjs_step matrix useCache letterPair st =
     andThen
       (if useCache then
          (case cache_g st of
             None \<Rightarrow> Inl ReferenceError
           | Some cache \<Rightarrow>
               (case cache letterPair of
                  Some e \<Rightarrow> Inr (Some e, Some cache)
                | None \<Rightarrow>
                    (let modelFind = find (\<lambda>m. fst m = letterPair) matrix
                     in Inr (modelFind, Some (cache(letterPair := modelFind))))))
        else Inr (find (\<lambda>m. fst m = letterPair) matrix, cache_g st))
       (\<lambda>(modelFind, g).
          Inr \<lparr>cache_g = g, pairCount_i = pairCount_i st + 1,
               totalScore_i =
                 (case modelFind of
                    Some e \<Rightarrow> num_add (totalScore_i st) (snd e)
                  | None \<Rightarrow> totalScore_i st)\<rparr>)"

function indexjs_loop ::
    "jstring \<Rightarrow> entry list \<Rightarrow> bool \<Rightarrow> nat \<Rightarrow> indexjs_state \<Rightarrow> error + indexjs_state" where
  "indexjs_loop split matrix useCache x st =
     (if x < length split then
        (if \<not> (x + 1 < length split) then Inr st
         else andThen (indexjs_step matrix useCache [split ! x, split ! (x + 1)] st)
                (indexjs_loop split matrix useCache (x + 1)))
      else Inr st)"
  by pat_completeness auto
termination
  by (relation "measure (\<lambda>(split, matrix, useCache, x, st). length split - x)") auto

declare indexjs_loop.simps [simp del]

text \<open>\<open>sanitizeText\<close> of \<open>index.js\<close> has the same steps on a string as the one above and
  no guard before them; the scorer is modelled on string input.\<close>

definition assignScore_indexjs ::
    "(jstring \<Rightarrow> jstring) \<Rightarrow> (jstring \<rightharpoonup> entry) option \<Rightarrow> jstring \<Rightarrow> entry list \<Rightarrow> bool
      \<Rightarrow> error + number \<times> (jstring \<rightharpoonup> entry) option" where
  "assignScore_indexjs nfd genv test matrix useCache =
     (let sanitized = sanitize_string nfd test;
          test = str_join (str_split sanitized [LF]) [SP];
          split = toLowerCase test
      in andThen
           (indexjs_loop split matrix useCache 0
              \<lparr>cache_g = genv, pairCount_i = 0, totalScore_i = Fin 0\<rparr>)
           (\<lambda>st. Inr (num_div (totalScore_i st) (Fin (of_nat (pairCount_i st))), cache_g st)))"

section \<open>Baseline calibrator and model builder\<close>

record stats =
  smin :: number
  smax :: number
  avg :: number

record baseline =
  good :: stats
  bad :: stats

record model =
  matrix :: "entry list"
  baseline :: baseline

fun map_result :: "('a \<Rightarrow> error + 'b) \<Rightarrow> 'a list \<Rightarrow> error + 'b list" where
  "map_result f [] = Inr []"
| "map_result f (x # xs) =
     (case f x of
        Inl e \<Rightarrow> Inl e
      | Inr y \<Rightarrow> (case map_result f xs of Inl e \<Rightarrow> Inl e | Inr ys \<Rightarrow> Inr (y # ys)))"

text \<open>\<open>scoreLines\<close>: every line is trimmed and scored with the default cache flag;
  \<open>reduce\<close> adds from the left, starting at 0.\<close>

definition scoreLines ::
    "(jstring \<Rightarrow> jstring) \<Rightarrow> jstring list \<Rightarrow> entry list \<Rightarrow> error + stats" where
  "scoreLines nfd lines model =
     (case map_result (\<lambda>line. assignScore nfd (Str (trim line)) model True) lines of
        Inl e \<Rightarrow> Inl e
      | Inr scores \<Rightarrow>
          (let min = Math_min scores;
               max = Math_max scores;
               average = num_div (foldl num_add (Fin 0) scores) (Fin (of_nat (length scores)))
           in Inr \<lparr>smin = min, smax = max, avg = average\<rparr>))"

text \<open>
  In \<open>train\<close> the array \<open>analysis\<close> and the object \<open>analysisCache\<close> hold references to
  the same entry objects, and \<open>existingFind.y++\<close> updates an entry through the cache.
  The store \<open>heap\<close> holds the entry objects by address; the array and the cache hold
  addresses. The cache is a plain object read at two-character keys, and no property
  of \<open>Object.prototype\<close> has a name of two characters, so a read finds an own
  property or nothing. Counts are natural numbers.
\<close>

record train_state =
  heap :: "(jstring \<times> nat) list"
  analysis :: "nat list"
  analysisCache :: "jstring \<rightharpoonup> nat"

definition train_step :: "jstring \<Rightarrow> train_state \<Rightarrow> train_state" where
  "train_step letterPair st =
     (case analysisCache st letterPair of
        Some existingFind \<Rightarrow>
          st\<lparr>heap := (heap st)[existingFind :=
                (fst (heap st ! existingFind), snd (heap st ! existingFind) + 1)]\<rparr>
      | None \<Rightarrow>
          (let newEntry = length (heap st)
           in \<lparr>heap = heap st @ [(letterPair, 1)],
               analysis = analysis st @ [newEntry],
               analysisCache = (analysisCache st)(letterPair \<mapsto> newEntry)\<rparr>))"

function train_loop :: "jstring \<Rightarrow> nat \<Rightarrow> train_state \<Rightarrow> train_state" where
  "train_loop split x st =
     (if x < length split then
        (if \<not> (x + 1 < length split) then st
         else train_loop split (x + 1) (train_step [split ! x, split ! (x + 1)] st))
      else st)"
  by pat_completeness auto
termination
  by (relation "measure (\<lambda>(split, x, st). length split - x)") auto

declare train_loop.simps [simp del]

text \<open>The line sets come as an array of strings or as one newline-delimited string.\<close>

datatype lines_arg = LineArray "jstring list" | LineString jstring

fun to_lines :: "lines_arg \<Rightarrow> jstring list" where
  "to_lines (LineArray ls) = ls"
| "to_lines (LineString s) = map trim (str_split s [LF])"

text \<open>\<open>analysis.sort((a,b) => b.y - a.y)\<close> is a stable sort by descending count.\<close>

definition train ::
    "(jstring \<Rightarrow> jstring) \<Rightarrow> jsval \<Rightarrow> lines_arg \<Rightarrow> lines_arg \<Rightarrow> error + model" where
  "train nfd sample goodLines badLines =
     (case sanitizeText nfd sample of
        Inl e \<Rightarrow> Inl e
      | Inr sample \<Rightarrow>
          (let split = toLowerCase sample;
               st = train_loop split 0 \<lparr>heap = [], analysis = [], analysisCache = Map.empty\<rparr>;
               analysis = sort_key (\<lambda>e. - int (snd e)) (map (\<lambda>a. heap st ! a) (analysis st));
               analysis = map (\<lambda>e. (fst e, Fin (of_nat (snd e)))) analysis;
               goodLines = to_lines goodLines;
               badLines = to_lines badLines
           in case scoreLines nfd goodLines analysis of
                Inl e \<Rightarrow> Inl e
              | Inr g \<Rightarrow>
                  (case scoreLines nfd badLines analysis of
                     Inl e \<Rightarrow> Inl e
                   | Inr b \<Rightarrow> Inr \<lparr>matrix = analysis, baseline = \<lparr>good = g, bad = b\<rparr>\<rparr>)))"

text \<open>The matrix \<open>train\<close> builds from the lowercased, sanitized corpus, and the
  invariant of its loop after the pairs \<open>ps\<close>: the array lists every entry object once,
  the cache finds each by its pair, and each count is the number of occurrences.\<close>

definition trained :: "jstring \<Rightarrow> entry list" where
  "trained cs =
     (let st = train_loop cs 0 \<lparr>heap = [], analysis = [], analysisCache = Map.empty\<rparr>
      in map (\<lambda>e. (fst e, Fin (of_nat (snd e))))
           (sort_key (\<lambda>e. - int (snd e)) (map (\<lambda>a. heap st ! a) (analysis st))))"

definition train_inv :: "train_state \<Rightarrow> jstring list \<Rightarrow> bool" where
  "train_inv st ps \<longleftrightarrow>
     analysis st = [0..<length (heap st)] \<and>
     distinct (map fst (heap st)) \<and>
     (\<forall>p a. analysisCache st p = Some a \<longleftrightarrow> a < length (heap st) \<and> fst (heap st ! a) = p) \<and>
     (\<forall>p. map_of (heap st) p = (if p \<in> set ps then Some (count_list ps p) else None)) \<and>
     sum_list (map snd (heap st)) = length ps"

section \<open>Detector\<close>

definition calculateThreshold :: "model \<Rightarrow> number" where
  "calculateThreshold model =
     num_div (num_add (smin (good (baseline model))) (smax (bad (baseline model)))) (Fin 2)"

text \<open>A threshold function takes the model and returns a number or throws. A missing
  one is replaced by \<open>calculateThreshold\<close>. The score is computed before the threshold.\<close>

definition testGibberish ::
    "(jstring \<Rightarrow> jstring) \<Rightarrow> jsval \<Rightarrow> model \<Rightarrow> (model \<Rightarrow> error + number) option \<Rightarrow> bool
      \<Rightarrow> error + bool" where
  "testGibberish nfd test model thresholdFn useCache =
     (let thresholdFn =
            (case thresholdFn of Some f \<Rightarrow> f | None \<Rightarrow> (\<lambda>m. Inr (calculateThreshold m)))
      in case assignScore nfd test (matrix model) useCache of
           Inl e \<Rightarrow> Inl e
         | Inr score \<Rightarrow>
             (case thresholdFn model of
                Inl e \<Rightarrow> Inl e
              | Inr threshold \<Rightarrow> Inr (num_le score threshold)))"

subsection \<open>Reading a validated value at its type\<close>

text \<open>
  Scoring reads \<open>item.x\<close>, \<open>item.y\<close> and the baseline numbers of a model that
  \<open>isValidModel\<close> has accepted. The functions below read such a value at the types
  the validator has established; they are applied to validated values only.
\<close>

fun prop_of :: "jsval \<Rightarrow> string \<Rightarrow> jsval" where
  "prop_of (Obj ps) k = (case map_of ps (lit k) of Some v \<Rightarrow> v | None \<Rightarrow> Undefined)"
| "prop_of v k = Undefined"

fun num_of :: "jsval \<Rightarrow> number" where
  "num_of (Num n) = n"
| "num_of v = NaN"

fun str_of :: "jsval \<Rightarrow> jstring" where
  "str_of (Str s) = s"
| "str_of v = []"

definition entry_of :: "jsval \<Rightarrow> entry" where
  "entry_of m = (str_of (prop_of m ''x''), num_of (prop_of m ''y''))"

fun entries_of :: "jsval \<Rightarrow> entry list" where
  "entries_of (Arr ms) = map entry_of ms"
| "entries_of v = []"

definition stats_of :: "jsval \<Rightarrow> stats" where
  "stats_of s = \<lparr>smin = num_of (prop_of s ''min''), smax = num_of (prop_of s ''max''),
                avg = num_of (prop_of s ''avg'')\<rparr>"

definition model_of :: "jsval \<Rightarrow> model" where
  "model_of v = \<lparr>matrix = entries_of (prop_of v ''matrix''),
                baseline = \<lparr>good = stats_of (prop_of (prop_of v ''baseline'') ''good''),
                            bad = stats_of (prop_of (prop_of v ''baseline'') ''bad'')\<rparr>\<rparr>"

subsection \<open>The detector object\<close>

text \<open>
  \<open>config\<close> is the configuration that \<open>testConfig\<close> has accepted, read at its types: a
  valid model, a function and a boolean. \<open>defaultConfig\<close> is the factory's default for a
  given shipped model (the file \<open>data/model.json\<close> is not part of the sources).
\<close>

record config =
  model :: model
  thresholdFn :: "model \<Rightarrow> error + number"
  useCache :: bool

definition defaultConfig :: "model \<Rightarrow> config" where
  "defaultConfig m =
     \<lparr>model = m, thresholdFn = (\<lambda>m. Inr (calculateThreshold m)), useCache = True\<rparr>"

definition detect ::
    "(jstring \<Rightarrow> jstring) \<Rightarrow> config \<Rightarrow> jsval \<Rightarrow> jsval \<Rightarrow> error + bool" where
  "detect nfd config testString overrideModel =
     (if truthy overrideModel then
        (case isValidModel overrideModel of
           Inl e \<Rightarrow> Inl e
         | Inr ok \<Rightarrow>
             if \<not> ok then Inl (Error ''Malformed learning model provided'')
             else testGibberish nfd testString (model_of overrideModel)
                    (Some (thresholdFn config)) (useCache config))
      else testGibberish nfd testString (model config)
             (Some (thresholdFn config)) (useCache config))"

subsection \<open>Run-time configuration\<close>

text \<open>
  The live configuration object, as the map of its own properties. The factory
  creates \<open>model\<close>, \<open>thresholdFn\<close> and \<open>useCache\<close> as own properties and nothing
  deletes them, so \<open>testConfig\<close> reads own properties. Assigning to \<open>__proto__\<close>
  creates no own property.
\<close>

type_synonym config_obj = "jstring \<rightharpoonup> jsval"

definition own :: "config_obj \<Rightarrow> string \<Rightarrow> jsval" where
  "own obj k = (case obj (lit k) of Some v \<Rightarrow> v | None \<Rightarrow> Undefined)"

definition assign :: "config_obj \<Rightarrow> jstring \<Rightarrow> jsval \<Rightarrow> config_obj" where
  "assign obj name v = (if name = lit ''__proto__'' then obj else obj(name \<mapsto> v))"

definition testConfig :: "config_obj \<Rightarrow> error + unit" where
  "testConfig config =
     andThen (isValidModel (own config ''model'')) (\<lambda>ok.
       if \<not> ok then Inl (Error ''model provided is not a valid structure.'')
       else if typeof (own config ''thresholdFn'') \<noteq> T_function
         then Inl (Error ''thresholdFn must be a function'')
       else if typeof (own config ''useCache'') \<noteq> T_boolean
         then Inl (Error ''useCache must be a boolean'')
       else Inr ())"

text \<open>\<open>set\<close> returns the outcome (an error, or \<open>this\<close>) and the configuration it leaves
  behind.\<close>

definition config_set ::
    "config_obj \<Rightarrow> jstring \<Rightarrow> jsval \<Rightarrow> (error + unit) \<times> config_obj" where
  "config_set config name v =
     (let cloneConfig = config;
          cloneConfig = assign cloneConfig name v
      in case testConfig cloneConfig of
           Inl e \<Rightarrow> (Inl e, config)
         | Inr u \<Rightarrow> (Inr (), assign config name v))"

text \<open>\<open>get\<close> reads \<open>config[name]\<close>: the own property when there is one. \<open>None\<close> is a
  name that is no own property: the read then goes to the prototype chain (for
  \<open>toString\<close>, say, to \<open>Object.prototype\<close>), which this model does not hold.\<close>

definition config_get :: "config_obj \<Rightarrow> jstring \<Rightarrow> jsval option" where
  "config_get config name = config name"

section \<open>Sample data\<close>

text \<open>A small model, as a value and at its type, for evaluating the program.\<close>

definition stats_val :: "number \<Rightarrow> number \<Rightarrow> number \<Rightarrow> jsval" where
  "stats_val a b c = Obj [(lit ''min'', Num a), (lit ''max'', Num b), (lit ''avg'', Num c)]"

definition entry_val :: "entry \<Rightarrow> jsval" where
  "entry_val e = Obj [(lit ''x'', Str (fst e)), (lit ''y'', Num (snd e))]"

definition model_val :: "entry list \<Rightarrow> stats \<Rightarrow> stats \<Rightarrow> jsval" where
  "model_val es g b =
     Obj [(lit ''matrix'', Arr (map entry_val es)),
          (lit ''baseline'',
             Obj [(lit ''good'', stats_val (smin g) (smax g) (avg g)),
                  (lit ''bad'', stats_val (smin b) (smax b) (avg b))])]"

definition toy_model :: model where
  "toy_model =
     \<lparr>matrix = [(lit ''he'', Fin 3), (lit ''el'', Fin 2), (lit ''lo'', Fin 1)],
      baseline = \<lparr>good = \<lparr>smin = Fin 2, smax = Fin 5, avg = Fin 3\<rparr>,
                  bad = \<lparr>smin = Fin 0, smax = Fin 1, avg = Fin (1 / 2)\<rparr>\<rparr>\<rparr>"

definition toy_config :: config_obj where
  "toy_config =
     [lit ''model'' \<mapsto> model_val (matrix toy_model) (good (baseline toy_model)) (bad (baseline toy_model)),
      lit ''thresholdFn'' \<mapsto> Fun 0,
      lit ''useCache'' \<mapsto> Bool True]"

section \<open>Properties of the arithmetic\<close>

lemma round_even_of_int [simp]: "round_even (of_int n) = n"
  by (simp add: round_even_def)

lemma round_even_error: "\<bar>of_int (round_even x) - x\<bar> \<le> 1 / 2"
proof -
  have "of_int \<lfloor>x\<rfloor> \<le> x" "x < of_int \<lfloor>x\<rfloor> + 1" by linarith+
  then show ?thesis by (auto simp: round_even_def Let_def abs_le_iff)
qed

lemma round_even_le: "x \<le> of_int m \<Longrightarrow> round_even x \<le> m"
proof -
  assume a: "x \<le> of_int m"
  have f: "\<lfloor>x\<rfloor> \<le> m" using a by (simp add: floor_le_iff)
  show ?thesis
  proof (cases "\<lfloor>x\<rfloor> = m")
    case True
    then have "x = of_int m" using a by (metis floor_correct order_antisym of_int_floor_le)
    then show ?thesis by simp
  next
    case False
    then have "\<lfloor>x\<rfloor> + 1 \<le> m" using f by simp
    then show ?thesis by (auto simp: round_even_def Let_def)
  qed
qed

lemma round_even_ge: "of_int m \<le> x \<Longrightarrow> m \<le> round_even x"
proof -
  assume "of_int m \<le> x"
  then have "m \<le> \<lfloor>x\<rfloor>" by (simp add: le_floor_iff)
  then show ?thesis by (auto simp: round_even_def Let_def)
qed

lemma find_exp_ge: "e \<le> find_exp n e a"
proof (induction n arbitrary: e)
  case (Suc n)
  show ?case using Suc [of "e + 1"] by simp
qed simp

lemma find_exp_le: "find_exp n e a \<le> e + int n"
proof (induction n arbitrary: e)
  case (Suc n)
  show ?case using Suc [of "e + 1"] by simp
qed simp

lemma find_exp_lower: "find_exp n e a = e \<or> power_int 2 (find_exp n e a) \<le> a"
proof (induction n arbitrary: e)
  case (Suc n)
  show ?case using Suc [of "e + 1"] by auto
qed simp

lemma find_exp_upper: "a < power_int 2 (find_exp n e a + 1) \<or> find_exp n e a = e + int n"
proof (induction n arbitrary: e)
  case (Suc n)
  show ?case using Suc [of "e + 1"] by auto
qed simp

lemma exponent_ge: "- 1022 \<le> exponent a"
  unfolding exponent_def by (rule find_exp_ge)

lemma exponent_le: "exponent a \<le> 1024"
  unfolding exponent_def using find_exp_le [of 2046 "- 1022" a] by simp

lemma exponent_lower: "exponent a = - 1022 \<or> power_int 2 (exponent a) \<le> a"
  unfolding exponent_def by (rule find_exp_lower)

lemma exponent_upper: "a < power_int 2 (exponent a + 1) \<or> exponent a = 1024"
  unfolding exponent_def using find_exp_upper [of a 2046 "- 1022"] by simp

lemma pow2_less_imp: "power_int 2 i \<le> (a::rat) \<Longrightarrow> a < power_int 2 j \<Longrightarrow> i < j"
proof (rule ccontr)
  assume a: "power_int 2 i \<le> a" "a < power_int 2 j" and "\<not> i < j"
  then have "power_int (2::rat) j \<le> power_int 2 i" by (intro power_int_increasing) auto
  with a show False by simp
qed

lemma exponent_eq:
  assumes "- 1022 \<le> e" "e \<le> 1023" "e = - 1022 \<or> power_int 2 e \<le> a" "a < power_int 2 (e + 1)"
  shows "exponent a = e"
proof -
  have "exponent a \<le> e"
    using exponent_lower [of a] assms(1,4) pow2_less_imp [of "exponent a" a "e + 1"] by auto
  moreover have "e \<le> exponent a"
    using exponent_upper [of a] exponent_ge [of a] assms(2,3) pow2_less_imp [of e a "exponent a + 1"]
    by auto
  ultimately show ?thesis by simp
qed

lemma pow2_pos [simp]: "0 < power_int (2::rat) k"
  by simp

lemma fl_representable_pos:
  assumes "M < 2 ^ 53" "- 1074 \<le> k" "of_nat M * power_int 2 k < (power_int 2 1024 :: rat)"
  shows "fl (of_nat M * power_int 2 k) = Fin (of_nat M * power_int 2 k)"
proof (cases "M = 0")
  case True
  then show ?thesis by (simp add: fl_def)
next
  case False
  define s :: rat where "s = of_nat M * power_int 2 k"
  have sp: "0 < s" using False by (simp add: s_def)
  define e where "e = exponent s"
  have "s < power_int 2 (53 + k)"
  proof -
    have "(of_nat M :: rat) < 2 ^ 53" using assms(1) by (metis of_nat_less_iff of_nat_numeral of_nat_power)
    then have "s < 2 ^ 53 * power_int 2 k" unfolding s_def by (intro mult_strict_right_mono) auto
    also have "\<dots> = power_int 2 (53 + k)" by (simp add: power_int_add)
    finally show ?thesis .
  qed
  then have ek: "e - 52 \<le> k"
    using exponent_lower [of s] assms(2) pow2_less_imp [of e s "53 + k"] by (auto simp: e_def)
  define j where "j = nat (k - (e - 52))"
  have kj: "k = (e - 52) + int j" using ek by (simp add: j_def)
  have "s / power_int 2 (e - 52) = of_nat M * power_int 2 (int j)"
    unfolding s_def by (subst kj) (simp add: power_int_add)
  also have "\<dots> = of_int (int (M * 2 ^ j))" by simp
  finally have q: "s / power_int 2 (e - 52) = of_int (int (M * 2 ^ j))" .
  have r: "of_int (round_even (s / power_int 2 (e - 52))) * power_int 2 (e - 52) = s"
    unfolding q round_even_of_int unfolding q [symmetric] by simp
  show ?thesis
    unfolding s_def [symmetric] using sp assms(3) r
    by (simp add: fl_def Let_def e_def [symmetric] s_def [symmetric])
qed

lemma fl_neg: "fl (- q) = (case fl q of Fin r \<Rightarrow> Fin (- r) | PosInf \<Rightarrow> NegInf | NegInf \<Rightarrow> PosInf | NaN \<Rightarrow> NaN)"
  by (cases "q = 0"; cases "0 < q") (auto simp: fl_def Let_def)

lemma fl_of_nat: "n < 2 ^ 53 \<Longrightarrow> fl (of_nat n) = Fin (of_nat n)"
proof -
  assume a: "n < 2 ^ 53"
  have "(of_nat n :: rat) < 2 ^ 53" using a by (metis of_nat_less_iff of_nat_numeral of_nat_power)
  also have "\<dots> < power_int 2 1024" by simp
  finally show ?thesis using fl_representable_pos [of n 0] a by simp
qed

lemma fl_idem_pos:
  assumes "0 < q" "fl q = Fin r"
  shows "fl r = Fin r"
proof -
  define e where "e = exponent q"
  define u :: rat where "u = power_int 2 (e - 52)"
  define N where "N = round_even (q / u)"
  have up: "0 < u" by (simp add: u_def)
  have r: "r = of_int N * u" and no: "of_int N * u < power_int 2 1024"
    using assms by (auto simp: fl_def Let_def e_def u_def N_def split: if_splits)
  have N0: "0 \<le> N" unfolding N_def using assms(1) up by (intro round_even_ge) simp
  have e1023: "e \<le> 1023 \<and> q < power_int 2 (e + 1)"
  proof (cases "e = 1024")
    case True
    have "power_int 2 1024 \<le> q"
      using exponent_lower [of q] True by (simp add: e_def)
    then have "of_int (2 ^ 52) \<le> q / u" using up by (simp add: u_def True pos_le_divide_eq)
    then have "2 ^ 52 \<le> N" unfolding N_def by (rule round_even_ge)
    then have "(2 ^ 52 :: rat) \<le> of_int N" by (metis of_int_le_iff of_int_numeral of_int_power)
    then have "2 ^ 52 * u \<le> of_int N * u" using up by (intro mult_right_mono) auto
    then have "power_int 2 1024 \<le> of_int N * u" by (simp add: u_def True)
    with no show ?thesis by simp
  next
    case False
    have "e \<le> 1024" unfolding e_def by (rule exponent_le)
    with False have "e \<le> 1023" by simp
    moreover have "q < power_int 2 (e + 1)" using exponent_upper [of q] False by (simp add: e_def)
    ultimately show ?thesis by simp
  qed
  have "q < 2 ^ 53 * u"
  proof -
    have "e + 1 = 53 + (e - 52)" by simp
    then have "power_int 2 (e + 1) = (2 ^ 53 :: rat) * power_int 2 (e - 52)"
      using power_int_add [of "2::rat" 53 "e - 52"] by (simp only: power_int_numeral) simp
    then show ?thesis using e1023 by (simp add: u_def)
  qed
  then have "q / u \<le> of_int (2 ^ 53)" using up by (simp add: pos_divide_le_eq)
  then have N53: "N \<le> 2 ^ 53" unfolding N_def by (rule round_even_le)
  have em: "- 1022 \<le> e" unfolding e_def by (rule exponent_ge)
  show ?thesis
  proof (cases "N = 2 ^ 53")
    case True
    have eq: "r = of_nat (2 ^ 52) * power_int 2 (e - 51)"
    proof -
      have "e - 51 = 1 + (e - 52)" by simp
      then have "power_int 2 (e - 51) = (2 :: rat) * power_int 2 (e - 52)"
        using power_int_add [of "2::rat" 1 "e - 52"] by (simp only: power_int_1_right) simp
      then show ?thesis by (simp add: r True u_def)
    qed
    show ?thesis
      unfolding eq using fl_representable_pos [of "2 ^ 52" "e - 51"] em no
      unfolding r [symmetric] eq by simp
  next
    case False
    then have lt: "nat N < 2 ^ 53" using N53 N0 by (simp add: nat_less_iff)
    have eq: "r = of_nat (nat N) * u" using N0 by (simp add: r)
    show ?thesis
      unfolding eq u_def using fl_representable_pos [OF lt, of "e - 52"] em no N0
      by (simp add: u_def)
  qed
qed

lemma fl_idem: "fl q = Fin r \<Longrightarrow> fl r = Fin r"
proof -
  assume a: "fl q = Fin r"
  consider "q = 0" | "0 < q" | "q < 0" by linarith
  then show ?thesis
  proof cases
    case 1
    then show ?thesis using a by (simp add: fl_def)
  next
    case 2
    then show ?thesis using a by (rule fl_idem_pos)
  next
    case 3
    obtain r' where r': "fl (- q) = Fin r'" "r = - r'"
      using a fl_neg [of "- q"] by (auto split: number.splits)
    have "fl r' = Fin r'" using fl_idem_pos [of "- q" r'] 3 r'(1) by simp
    then show ?thesis unfolding r'(2) by (simp add: fl_neg)
  qed
qed

lemma fl_error:
  assumes "power_int 2 (- 1022) \<le> q" "q \<le> power_int 2 1023"
  shows "\<exists>r. fl q = Fin r \<and> \<bar>r - q\<bar> \<le> q / 2 ^ 53"
proof -
  have qp: "0 < q" by (rule less_le_trans [OF pow2_pos assms(1)])
  define e where "e = exponent q"
  define u :: rat where "u = power_int 2 (e - 52)"
  define N where "N = round_even (q / u)"
  have up: "0 < u" by (simp add: u_def)
  have lo: "power_int 2 e \<le> q" using exponent_lower [of q] assms(1) by (auto simp: e_def)
  have "\<bar>of_int N - q / u\<bar> \<le> 1 / 2" unfolding N_def by (rule round_even_error)
  then have "\<bar>of_int N - q / u\<bar> * u \<le> 1 / 2 * u" using up by (intro mult_right_mono) auto
  moreover have "(of_int N - q / u) * u = of_int N * u - q" using up by (simp add: left_diff_distrib)
  then have "\<bar>of_int N * u - q\<bar> = \<bar>of_int N - q / u\<bar> * u"
    using up by (metis abs_mult abs_of_pos)
  ultimately have err: "\<bar>of_int N * u - q\<bar> \<le> u / 2" by simp
  have "e = 52 + (e - 52)" by simp
  then have "power_int 2 e = (2 ^ 52 :: rat) * power_int 2 (e - 52)"
    using power_int_add [of "2::rat" 52 "e - 52"] by (simp only: power_int_numeral) simp
  then have "u / 2 = power_int 2 e / 2 ^ 53" by (simp add: u_def)
  also have "\<dots> \<le> q / 2 ^ 53" using lo by (simp add: divide_right_mono)
  finally have u2: "u / 2 \<le> q / 2 ^ 53" .
  have "of_int N * u \<le> q + q / 2 ^ 53" using err u2 by linarith
  also have "\<dots> \<le> power_int 2 1023 + power_int 2 1023 / 2 ^ 53"
    using assms(2) by (intro add_mono divide_right_mono) auto
  also have "\<dots> < power_int 2 1024" by simp
  finally have no: "\<not> power_int 2 1024 \<le> of_int N * u" by simp
  have "fl q = Fin (of_int N * u)"
    using qp no by (simp add: fl_def Let_def e_def [symmetric] u_def [symmetric] N_def [symmetric])
  then show ?thesis using err u2 by auto
qed

lemma fl_0 [simp]: "fl 0 = Fin 0"
  by (simp add: fl_def)

lemma fl_numeral [simp]: "(numeral w :: nat) < 2 ^ 53 \<Longrightarrow> fl (numeral w) = Fin (numeral w)"
  using fl_of_nat [of "numeral w"] by simp

lemma fl_1 [simp]: "fl 1 = Fin 1"
  using fl_of_nat [of 1] by simp

lemma fl_at:
  assumes "- 1022 \<le> e" "e \<le> 1023" "power_int 2 e \<le> q" "q < power_int 2 (e + 1)"
  shows "fl q =
     (if (power_int 2 1024 :: rat)
           \<le> of_int (round_even (q / power_int 2 (e - 52))) * power_int 2 (e - 52)
      then PosInf
      else Fin (of_int (round_even (q / power_int 2 (e - 52))) * power_int 2 (e - 52)))"
proof -
  have qp: "0 < q" by (rule less_le_trans [OF pow2_pos assms(3)])
  have "exponent q = e" using assms by (intro exponent_eq) auto
  then show ?thesis using qp by (simp add: fl_def Let_def)
qed

lemma fl_overflow:
  assumes "power_int 2 1024 \<le> q"
  shows "fl q = PosInf"
proof -
  have qp: "0 < q" by (rule less_le_trans [OF pow2_pos assms])
  define e where "e = exponent q"
  define u :: rat where "u = power_int 2 (e - 52)"
  have up: "0 < u" by (simp add: u_def)
  have e: "- 1022 \<le> e" "e \<le> 1024" by (simp_all add: e_def exponent_ge exponent_le)
  define j where "j = nat (1076 - e)"
  have "1024 = int j + (e - 52)" using e by (simp add: j_def)
  then have "power_int 2 1024 = (2 :: rat) ^ j * power_int 2 (e - 52)"
    using power_int_add [of "2::rat" "int j" "e - 52"] by (simp only: power_int_of_nat) simp
  then have p: "power_int 2 1024 = of_int (2 ^ j) * u" by (simp add: u_def)
  then have "of_int (2 ^ j) \<le> q / u" using assms up by (simp add: pos_le_divide_eq)
  then have "2 ^ j \<le> round_even (q / u)" by (rule round_even_ge)
  then have "(of_int (2 ^ j) :: rat) \<le> of_int (round_even (q / u))" by (simp only: of_int_le_iff)
  then have "of_int (2 ^ j) * u \<le> of_int (round_even (q / u)) * u"
    using up by (intro mult_right_mono) auto
  then have "power_int 2 1024 \<le> of_int (round_even (q / u)) * u" by (simp only: p)
  then show ?thesis
    using qp by (simp add: fl_def Let_def e_def [symmetric] u_def [symmetric])
qed

lemma fl_three_halves [simp]: "fl (3 / 2) = Fin (3 / 2)"
  using fl_representable_pos [of 3 "- 1"] by simp

lemma floor_third: "\<lfloor>(18014398509481984 :: rat) / 3\<rfloor> = 6004799503160661"
  by (rule floor_unique) simp_all

lemma round_even_third: "round_even (18014398509481984 / 3) = 6004799503160661"
  by (simp add: round_even_def Let_def floor_third)

lemma fl_third: "fl (1 / 3) = Fin (6004799503160661 / 18014398509481984)"
proof -
  have "(1 :: rat) / 3 / power_int 2 (- 2 - 52) = 18014398509481984 / 3" by simp
  then show ?thesis
    using fl_at [of "- 2" "1 / 3"] by (simp add: round_even_third)
qed

lemma num_add_double: "is_double (num_add a b)"
proof (cases a; cases b)
  fix x y assume "a = Fin x" "b = Fin y"
  then show ?thesis using fl_idem [of "x + y"] by (cases "fl (x + y)") auto
qed simp_all

lemma num_add_zero_right: "is_double t \<Longrightarrow> num_add t (Fin 0) = t"
  by (cases t) simp_all

lemma foldl_num_add_nat:
  "a + sum_list ns < 2 ^ 53 \<Longrightarrow>
   foldl num_add (Fin (of_nat a)) (map (\<lambda>n. Fin (of_nat n)) ns) = Fin (of_nat (a + sum_list ns))"
proof (induction ns arbitrary: a)
  case Nil
  then show ?case by simp
next
  case (Cons n ns)
  have "a + n < 2 ^ 53" using Cons.prems by simp
  then have "num_add (Fin (of_nat a)) (Fin (of_nat n)) = Fin (of_nat (a + n))"
    using fl_of_nat [of "a + n"] by simp
  then show ?case using Cons.IH [of "a + n"] Cons.prems by (simp add: add.assoc)
qed

lemma num_div_nat:
  "1 \<le> k \<Longrightarrow> num_div (Fin (of_nat S)) (Fin (of_nat k)) = fl (of_nat S / of_nat k)"
  by simp

lemma quotient_error:
  fixes S k :: nat
  assumes "S < 2 ^ 53" "1 \<le> k" "k \<le> 2 ^ 53"
  shows "\<exists>s. fl (of_nat S / of_nat k) = Fin s \<and>
             \<bar>s - of_nat S / of_nat k\<bar> \<le> of_nat S / of_nat k / 2 ^ 53"
proof (cases "S = 0")
  case True
  then show ?thesis by simp
next
  case False
  define q :: rat where "q = of_nat S / of_nat k"
  have kp: "(0 :: rat) < of_nat k" using assms(2) by simp
  have k53: "(of_nat k :: rat) \<le> 2 ^ 53"
    using assms(3) by (metis of_nat_le_iff of_nat_numeral of_nat_power)
  have S1: "(1 :: rat) \<le> of_nat S" using False by (simp add: Suc_leI)
  have S53: "(of_nat S :: rat) \<le> 2 ^ 53"
    using assms(1) by (metis less_imp_le of_nat_le_iff of_nat_numeral of_nat_power)
  have "power_int 2 (- 1022) \<le> (1 :: rat) / 2 ^ 53" by simp
  also have "\<dots> \<le> 1 / of_nat k" using kp k53 by (simp add: frac_le)
  also have "\<dots> \<le> q" unfolding q_def using S1 kp by (simp add: divide_right_mono)
  finally have lo: "power_int 2 (- 1022) \<le> q" .
  have "q \<le> of_nat S" unfolding q_def using kp assms(2) S1
    by (simp add: pos_divide_le_eq mult_le_cancel_left1)
  also have "\<dots> \<le> power_int 2 1023" using S53 by simp
  finally have hi: "q \<le> power_int 2 1023" .
  show ?thesis using fl_error [OF lo hi] by (simp add: q_def)
qed

section \<open>Properties of strings and of the sanitizer\<close>

lemma split_from_not_Nil: "split_from sep acc s \<noteq> []"
  by (induction sep acc s rule: split_from.induct) auto

lemma str_join_Cons:
  "str_join (p # ps) sep = p @ (if ps = [] then [] else sep @ str_join ps sep)"
  by (cases ps) auto

lemma join_split_unit:
  "str_join (split_from [c] acc s) [d] = acc @ map (\<lambda>x. if x = c then d else x) s"
proof (induction s arbitrary: acc)
  case Nil
  then show ?case by simp
next
  case (Cons a s)
  show ?case
  proof (cases "a = c")
    case True
    then show ?thesis
      using Cons.IH [of "[]"] by (simp add: str_join_Cons split_from_not_Nil)
  next
    case False
    then show ?thesis
      using Cons.IH [of "acc @ [a]"] by simp
  qed
qed

lemma replace_unit:
  "str_join (str_split s [c]) [d] = map (\<lambda>x. if x = c then d else x) s"
  by (simp add: str_split_def join_split_unit)

lemma split_from_absent:
  "sep \<noteq> [] \<Longrightarrow> last sep \<notin> set s \<Longrightarrow> split_from sep acc s = [acc @ s]"
proof (induction s arbitrary: acc)
  case Nil
  then show ?case by simp
next
  case (Cons a s)
  have "\<not> prefix sep (a # s)"
  proof
    assume "prefix sep (a # s)"
    then have "set sep \<subseteq> set (a # s)" by (rule set_mono_prefix)
    moreover have "last sep \<in> set sep" using Cons.prems(1) by simp
    ultimately show False using Cons.prems(2) by blast
  qed
  moreover have "split_from sep (acc @ [a]) s = [(acc @ [a]) @ s]"
    using Cons by simp
  ultimately show ?case by simp
qed

lemma set_collapse_spaces: "set (collapse_spaces s) \<subseteq> set s"
  by (induction s rule: collapse_spaces.induct) auto

lemma unit_ascii_not_combining: "c \<le> 0x7F \<Longrightarrow> \<not> is_combining (c::code_unit)"
  by (simp add: is_combining_def word_le_nat_alt)

lemma terminator_is_noise: "is_terminator c \<Longrightarrow> is_noise c"
  by (auto simp: is_terminator_def is_noise_def)

lemma sanitize_string_units:
  "c \<in> set (sanitize_string nfd s) \<Longrightarrow> c \<le> 0x7F \<and> \<not> is_noise c"
  by (simp add: sanitize_string_def convertToLatinEquivalent_def Let_def)

lemma sanitize_ascii: "is_ascii (sanitize_string nfd s)"
  using sanitize_string_units by (auto simp: is_ascii_def list_all_iff)

lemma sanitize_no_breaks:
  assumes "nfd_host nfd"
  shows "TAB \<notin> set (sanitize_string nfd s) \<and> LF \<notin> set (sanitize_string nfd s)"
proof -
  define a where "a = str_join (str_split s [CR, LF]) [SP]"
  define b where "b = map (\<lambda>x. if x = LF then SP else x) a"
  define c where "c = map (\<lambda>x. if x = TAB then SP else x) b"
  define d where "d = map (\<lambda>c. if is_terminator c then SP else c) c"
  define e where "e = collapse_spaces d"
  have "TAB \<notin> set c \<and> LF \<notin> set c" by (auto simp: b_def c_def)
  then have "TAB \<notin> set d \<and> LF \<notin> set d" by (auto simp: d_def)
  then have "TAB \<notin> set e \<and> LF \<notin> set e" using set_collapse_spaces [of d] by (auto simp: e_def)
  then have "TAB \<notin> set (nfd e) \<and> LF \<notin> set (nfd e)" using assms by (simp add: nfd_host_def)
  moreover have "sanitize_string nfd s =
      filter (\<lambda>c. \<not> is_noise c) (filter (\<lambda>c. c \<le> 0x7F) (filter (\<lambda>c. \<not> is_combining c) (nfd e)))"
    by (simp only: sanitize_string_def convertToLatinEquivalent_def Let_def replace_unit
        a_def b_def c_def d_def e_def)
  ultimately show ?thesis by simp
qed

lemma sanitize_string_again:
  assumes "nfd_host nfd"
  shows "sanitize_string nfd (sanitize_string nfd x) = collapse_spaces (sanitize_string nfd x)"
proof -
  define y where "y = sanitize_string nfd x"
  have br: "TAB \<notin> set y" "LF \<notin> set y" using sanitize_no_breaks [OF assms] by (simp_all add: y_def)
  have un: "\<And>c. c \<in> set y \<Longrightarrow> c \<le> 0x7F \<and> \<not> is_noise c"
    using sanitize_string_units by (simp add: y_def)
  have s1: "str_join (str_split y [CR, LF]) [SP] = y"
    using br by (simp add: str_split_def split_from_absent)
  have s2: "map (\<lambda>x. if x = LF then SP else x) y = y" using br by (intro map_idI) auto
  have s3: "map (\<lambda>x. if x = TAB then SP else x) y = y" using br by (intro map_idI) auto
  have s4: "map (\<lambda>c. if is_terminator c then SP else c) y = y"
  proof (intro map_idI)
    fix c assume "c \<in> set y"
    then have "\<not> is_terminator c" using un terminator_is_noise by blast
    then show "(if is_terminator c then SP else c) = c" by simp
  qed
  have cu: "\<And>c. c \<in> set (collapse_spaces y) \<Longrightarrow> c \<le> 0x7F \<and> \<not> is_noise c"
    using un set_collapse_spaces [of y] by blast
  then have "is_ascii (collapse_spaces y)" by (auto simp: is_ascii_def list_all_iff)
  then have s6: "nfd (collapse_spaces y) = collapse_spaces y"
    using assms by (simp add: nfd_host_def)
  have s7: "filter (\<lambda>c. \<not> is_noise c) (filter (\<lambda>c. c \<le> 0x7F)
              (filter (\<lambda>c. \<not> is_combining c) (collapse_spaces y))) = collapse_spaces y"
    using cu unit_ascii_not_combining by (simp add: filter_id_conv)
  show ?thesis
    unfolding y_def [symmetric]
    by (simp only: sanitize_string_def [of nfd y] convertToLatinEquivalent_def Let_def replace_unit
        s1 s2 s3 s4 s6 s7)
qed

lemma sanitize_string_Nil: "nfd_host nfd \<Longrightarrow> sanitize_string nfd [] = []"
  by (simp add: sanitize_string_def convertToLatinEquivalent_def Let_def str_split_def
      nfd_host_def is_ascii_def)

lemma nfd_host_sample: "nfd_host nfd_sample"
proof -
  have "\<And>s. is_ascii s \<Longrightarrow> nfd_sample s = s"
  proof -
    fix s :: jstring
    show "is_ascii s \<Longrightarrow> nfd_sample s = s"
      by (induction s) (auto simp: is_ascii_def nfd_sample_def)
  qed
  moreover have "\<And>s. set (nfd_sample s) \<subseteq> set s \<union> {0x65, 0x301}"
    by (auto simp: nfd_sample_def split: if_splits)
  then have "\<And>s. TAB \<notin> set s \<and> LF \<notin> set s \<Longrightarrow> TAB \<notin> set (nfd_sample s) \<and> LF \<notin> set (nfd_sample s)"
    by fastforce
  ultimately show ?thesis unfolding nfd_host_def by blast
qed

lemma length_collapse_spaces: "length (collapse_spaces s) \<le> length s"
  by (induction s rule: collapse_spaces.induct) auto

lemma collapse_spaces_fixed: "collapse_spaces s = s \<longleftrightarrow> \<not> double_space s"
proof (induction s rule: collapse_spaces.induct)
  case (3 c d cs)
  show ?case
  proof (cases "c = SP \<and> d = SP")
    case True
    have "length (collapse_spaces (d # cs)) < length (c # d # cs)"
      using length_collapse_spaces [of "d # cs"] by simp
    then have "collapse_spaces (d # cs) \<noteq> c # d # cs" by auto
    with True show ?thesis by simp
  next
    case False
    with 3 show ?thesis by auto
  qed
qed simp_all

lemma sanitizeText_Str: "sanitizeText nfd (Str s) = Inr (sanitize_string nfd s)"
  by (cases "s = []") (simp_all add: sanitizeText_def)

lemmas sanitize_eval =
  sanitizeText_def sanitize_string_def convertToLatinEquivalent_def Let_def replace_unit
  str_split_def lit_def nfd_sample_def is_terminator_def is_noise_def is_combining_def

text \<open>
  C3, as amended. A second pass of the sanitizer over its own output only collapses
  the runs of spaces that removing noise has left behind: for every string \<open>x\<close>,
  \<open>sanitize(sanitize(x))\<close> is \<open>sanitize(x)\<close> with each run of two or more spaces
  replaced by one, and it equals \<open>sanitize(x)\<close> exactly when \<open>sanitize(x)\<close> holds no
  two adjacent spaces.
\<close>

theorem sanitize_twice:
  assumes "nfd_host nfd" and "sanitizeText nfd (Str x) = Inr y"
  shows "sanitizeText nfd (Str y) = Inr (collapse_spaces y) \<and>
         (sanitizeText nfd (Str y) = Inr y \<longleftrightarrow> \<not> double_space y)"
proof -
  have y: "y = sanitize_string nfd x" using assms(2) by (simp add: sanitizeText_Str)
  have "sanitizeText nfd (Str y) = Inr (collapse_spaces y)"
    unfolding y sanitizeText_Str using sanitize_string_again [OF assms(1)] by simp
  then show ?thesis using collapse_spaces_fixed [of y] by auto
qed

theorem sanitize_twice_witness:
  "nfd_host nfd_sample \<and>
   sanitizeText nfd_sample (Str (lit ''x 2 y'')) = Inr (lit ''x  y'') \<and>
   sanitizeText nfd_sample (Str (lit ''x  y'')) = Inr (collapse_spaces (lit ''x  y'')) \<and>
   double_space (lit ''x  y'')"
proof -
  have e: "sanitizeText nfd_sample (Str (lit ''x 2 y'')) = Inr (lit ''x  y'')"
    by (simp add: sanitize_eval)
  have d: "double_space (lit ''x  y'')" by (simp add: lit_def)
  show ?thesis using sanitize_twice [OF nfd_host_sample e] e d nfd_host_sample by simp
qed

text \<open>C3, as stated, fails at \<open>"a 1 b"\<close>: the digit goes after the spaces were
  collapsed, so the first pass returns \<open>"a  b"\<close> and the second \<open>"a b"\<close>.\<close>

theorem sanitize_idempotent_counterexample:
  "sanitizeText nfd_sample (Str (lit ''a 1 b'')) = Inr (lit ''a  b'') \<and>
   sanitizeText nfd_sample (Str (lit ''a  b'')) = Inr (lit ''a b'') \<and>
   lit ''a b'' \<noteq> lit ''a  b''"
  by (simp add: sanitize_eval)

section \<open>Properties of the score engine\<close>

lemma bigrams_Cons2: "bigrams (a # b # cs) = [a, b] # bigrams (b # cs)"
  by (simp add: bigrams_def)

lemma bigrams_short: "length cs < 2 \<Longrightarrow> bigrams cs = []"
  by (cases cs) (auto simp: bigrams_def)

lemma length_bigrams: "length (bigrams cs) = length cs - 1"
  by (simp add: bigrams_def)

lemma bigrams_drop:
  "x + 1 < length cs \<Longrightarrow> bigrams (drop x cs) = [cs ! x, cs ! (x + 1)] # bigrams (drop (x + 1) cs)"
proof -
  assume a: "x + 1 < length cs"
  then have "drop x cs = cs ! x # cs ! (x + 1) # drop (x + 2) cs"
    by (metis Cons_nth_drop_Suc Suc_eq_plus1 add_2_eq_Suc' add_lessD1)
  moreover have "drop (x + 1) cs = cs ! (x + 1) # drop (x + 2) cs"
    using a by (metis Cons_nth_drop_Suc Suc_eq_plus1 add_2_eq_Suc')
  ultimately show ?thesis by (simp add: bigrams_Cons2)
qed

lemma score_loop_fold:
  "score_loop cs table uc x st = fold (score_step table uc) (bigrams (drop x cs)) st"
proof (induction cs table uc x st rule: score_loop.induct)
  case (1 split matrixMap useCache x st)
  show ?case
  proof (cases "x + 1 < length split")
    case True
    then show ?thesis
      using 1 by (subst score_loop.simps) (simp add: bigrams_drop)
  next
    case False
    then have "bigrams (drop x split) = []" by (simp add: bigrams_short)
    with False show ?thesis by (subst score_loop.simps) simp
  qed
qed

lemma score_step_acc:
  assumes "cache_ok table (modelCache st)"
  shows "totalScore (score_step table uc p st) = score_acc table (totalScore st) p"
    and "pairCount (score_step table uc p st) = pairCount st + 1"
    and "cache_ok table (modelCache (score_step table uc p st))"
  using assms by (auto simp: score_step_def score_acc_def cache_ok_def split: option.splits)

lemma fold_score_step:
  assumes "cache_ok table (modelCache st)"
  shows "totalScore (fold (score_step table uc) ps st) = foldl (score_acc table) (totalScore st) ps \<and>
         pairCount (fold (score_step table uc) ps st) = pairCount st + length ps"
  using assms
proof (induction ps arbitrary: st)
  case Nil
  then show ?case by simp
next
  case (Cons p ps)
  show ?case using Cons.IH [OF score_step_acc(3) [OF Cons.prems]] score_step_acc(1,2) [OF Cons.prems]
    by simp
qed

lemma assignScore_fold:
  assumes "sanitizeText nfd t = Inr s"
  shows "assignScore nfd t m uc =
     Inr (num_div (foldl (score_acc (convertJSONMatrixIntoMap m)) (Fin 0)
                     (bigrams (toLowerCase (str_join (str_split s [LF]) [SP]))))
            (Fin (of_nat (length (bigrams (toLowerCase (str_join (str_split s [LF]) [SP])))))))"
proof -
  have c: "cache_ok (convertJSONMatrixIntoMap m)
             (modelCache \<lparr>modelCache = Map.empty, pairCount = 0, totalScore = Fin 0\<rparr>)"
    by (simp add: cache_ok_def)
  show ?thesis
    using fold_score_step [OF c, of uc] assms
    by (simp add: assignScore_def Let_def score_loop_fold)
qed

lemma assignScore_cache_transparent:
  "assignScore nfd t m True = assignScore nfd t m False"
proof (cases "sanitizeText nfd t")
  case (Inl e)
  then show ?thesis by (simp add: assignScore_def)
next
  case (Inr s)
  then show ?thesis by (simp add: assignScore_fold)
qed

lemma length_scored_form [simp]:
  "length (toLowerCase (str_join (str_split s [c]) [d])) = length s"
  by (simp add: toLowerCase_def replace_unit)

lemma assignScore_zero_pairs:
  assumes "sanitizeText nfd t = Inr s" and "length s < 2"
  shows "assignScore nfd t m uc = Inr NaN"
  using assms by (simp add: assignScore_fold bigrams_short)

lemma convert_foldl:
  "foldl (\<lambda>map item. map(fst item \<mapsto> snd item)) M m = M ++ map_of (rev m)"
  by (induction m arbitrary: M) (simp_all add: map_add_upd_left map_add_def fun_eq_iff split: option.splits)

lemma convertJSONMatrixIntoMap_map_of: "convertJSONMatrixIntoMap m = map_of (rev m)"
  by (simp add: convertJSONMatrixIntoMap_def convert_foldl)

lemma positive_truthy: "positive w \<Longrightarrow> num_truthy w"
  by (cases w) auto

lemma score_acc_positive:
  assumes "\<forall>e \<in> set m. positive (snd e)" and "is_double t"
  shows "score_acc (map_of (rev m)) t p = num_add t (weight (map_of (rev m)) p)"
proof (cases "map_of (rev m) p")
  case None
  then show ?thesis using assms(2) by (simp add: score_acc_def weight_def num_add_zero_right)
next
  case (Some w)
  then have "(p, w) \<in> set m" using map_of_SomeD by fastforce
  then have "num_truthy w" using assms(1) positive_truthy by fastforce
  with Some show ?thesis by (simp add: score_acc_def weight_def)
qed

lemma foldl_score_acc_positive:
  assumes "\<forall>e \<in> set m. positive (snd e)"
  shows "is_double t \<Longrightarrow>
         foldl (score_acc (map_of (rev m))) t ps =
         foldl num_add t (map (weight (map_of (rev m))) ps)"
proof (induction ps arbitrary: t)
  case Nil
  then show ?case by simp
next
  case (Cons p ps)
  have "score_acc (map_of (rev m)) t p = num_add t (weight (map_of (rev m)) p)"
    using score_acc_positive [OF assms Cons.prems] .
  then show ?case using Cons.IH [OF num_add_double] by simp
qed

text \<open>
  C2. For every text whose sanitized, lowercased form \<open>cs\<close> has at least one adjacent
  pair, and every table whose counts are positive, the score is the sum over the pairs
  of \<open>cs\<close> of the table's count for the pair, 0 for a pair the table does not hold,
  divided by the number of pairs \<open>length cs - 1\<close>: absent pairs count in the
  denominator. Sum and quotient are those of the program: the counts are added from
  left to right, starting at 0, and each sum and the quotient are rounded to a double.
  When the counts are whole numbers \<open>ns\<close> with a sum below \<open>2^53\<close> (and the text is no
  longer than a string can be), no addition rounds, and the score is the double nearest
  to the exact quotient, within a relative error of \<open>2^-53\<close>. The table is the map the
  matrix converts to, in which the last entry of a key wins. The cache flag plays no
  part.
\<close>

theorem assignScore_average:
  assumes "nfd_host nfd"
      and "cs = toLowerCase (sanitize_string nfd text)"
      and "1 \<le> length (bigrams cs)"
      and "\<forall>e \<in> set m. positive (snd e)"
  shows "assignScore nfd (Str text) m uc =
           Inr (num_div (foldl num_add (Fin 0) (map (weight (map_of (rev m))) (bigrams cs)))
                  (Fin (of_nat (length cs - 1)))) \<and>
         (map (weight (map_of (rev m))) (bigrams cs) = map (\<lambda>n. Fin (of_nat n)) ns \<and>
          sum_list ns < 2 ^ 53 \<and> length cs \<le> 2 ^ 53 \<longrightarrow>
            (\<exists>s. assignScore nfd (Str text) m uc = Inr (Fin s) \<and>
                 fl (of_nat (sum_list ns) / of_nat (length cs - 1)) = Fin s \<and>
                 \<bar>s - of_nat (sum_list ns) / of_nat (length cs - 1)\<bar>
                   \<le> of_nat (sum_list ns) / of_nat (length cs - 1) / 2 ^ 53))"
proof -
  have "LF \<notin> set (sanitize_string nfd text)" using sanitize_no_breaks [OF assms(1)] by simp
  then have "map (\<lambda>x. if x = LF then SP else x) (sanitize_string nfd text) = sanitize_string nfd text"
    by (intro map_idI) auto
  then have cs: "toLowerCase (str_join (str_split (sanitize_string nfd text) [LF]) [SP]) = cs"
    by (simp add: replace_unit assms(2))
  have d0: "is_double (Fin 0)" by simp
  have first: "assignScore nfd (Str text) m uc =
           Inr (num_div (foldl num_add (Fin 0) (map (weight (map_of (rev m))) (bigrams cs)))
                  (Fin (of_nat (length cs - 1))))"
    unfolding assignScore_fold [OF sanitizeText_Str] cs convertJSONMatrixIntoMap_map_of
      foldl_score_acc_positive [OF assms(4) d0]
    by (simp add: length_bigrams)
  have second: "\<exists>s. assignScore nfd (Str text) m uc = Inr (Fin s) \<and>
                 fl (of_nat (sum_list ns) / of_nat (length cs - 1)) = Fin s \<and>
                 \<bar>s - of_nat (sum_list ns) / of_nat (length cs - 1)\<bar>
                   \<le> of_nat (sum_list ns) / of_nat (length cs - 1) / 2 ^ 53"
    if h: "map (weight (map_of (rev m))) (bigrams cs) = map (\<lambda>n. Fin (of_nat n)) ns"
      "sum_list ns < 2 ^ 53" "length cs \<le> 2 ^ 53"
  proof -
    have k1: "1 \<le> length cs - 1" using assms(3) by (simp add: length_bigrams)
    have k2: "length cs - 1 \<le> 2 ^ 53" using h(3) by simp
    have "foldl num_add (Fin (of_nat 0)) (map (\<lambda>n. Fin (of_nat n)) ns) = Fin (of_nat (0 + sum_list ns))"
      using h(2) by (intro foldl_num_add_nat) simp
    then have "foldl num_add (Fin 0) (map (weight (map_of (rev m))) (bigrams cs)) =
        Fin (of_nat (sum_list ns))"
      by (simp add: h(1))
    then have sc: "assignScore nfd (Str text) m uc =
        Inr (fl (of_nat (sum_list ns) / of_nat (length cs - 1)))"
      by (simp only: first num_div_nat [OF k1])
    obtain s where "fl (of_nat (sum_list ns) / of_nat (length cs - 1)) = Fin s"
      "\<bar>s - of_nat (sum_list ns) / of_nat (length cs - 1)\<bar>
         \<le> of_nat (sum_list ns) / of_nat (length cs - 1) / 2 ^ 53"
      using quotient_error [OF h(2) k1 k2] by blast
    then show ?thesis using sc by auto
  qed
  show ?thesis using first second by blast
qed

lemma testGibberish_zero_pairs:
  assumes "sanitizeText nfd t = Inr s" and "length s < 2" and "f mdl = Inr th"
  shows "testGibberish nfd t mdl (Some f) uc = Inr False"
  using assms by (simp add: testGibberish_def assignScore_zero_pairs)

text \<open>
  C1, as amended. For every input whose sanitized, lowercased form has fewer than two
  characters the score is \<open>0 / 0 = NaN\<close>, the comparison \<open>score <= threshold\<close> is
  false, and \<open>detect\<close> returns false, whatever the model (the configured one or a valid
  override) and whatever number the threshold function returns.
\<close>

theorem detect_zero_pairs:
  assumes "sanitizeText nfd t = Inr s"
      and "length (toLowerCase s) < 2"
      and "\<not> truthy ov \<or> isValidModel ov = Inr True"
      and "thresholdFn cfg (if truthy ov then model_of ov else model cfg) = Inr th"
  shows "detect nfd cfg t ov = Inr False"
proof -
  have l: "length s < 2" using assms(2) by (simp add: toLowerCase_def)
  show ?thesis
  proof (cases "truthy ov")
    case True
    then show ?thesis
      using assms(3,4) testGibberish_zero_pairs [OF assms(1) l] by (simp add: detect_def)
  next
    case False
    then show ?thesis
      using assms(4) testGibberish_zero_pairs [OF assms(1) l] by (simp add: detect_def)
  qed
qed

lemma sanitizeText_falsy: "nfd_host nfd \<Longrightarrow> \<not> truthy v \<Longrightarrow> sanitizeText nfd v = Inr []"
  by (simp add: sanitizeText_def sanitize_string_Nil)

lemma sanitizeText_wrong_type:
  "truthy v \<Longrightarrow> typeof v \<noteq> T_string \<Longrightarrow>
   sanitizeText nfd v = Inl (Error ''Input sample must be a string'')"
  by (cases v) (simp_all add: sanitizeText_def)

text \<open>
  C8. \<open>sanitizeText\<close> turns every falsy input into the empty string without raising
  and raises for every truthy input that is not a string; so \<open>detect\<close> does not throw
  on a falsy input (with the default configuration, and with any threshold function
  that returns on the configured model) and throws on a truthy non-string input.
\<close>

theorem sanitize_input_types:
  assumes "nfd_host nfd"
  shows "(\<not> truthy v \<longrightarrow>
            sanitizeText nfd v = Inr [] \<and>
            detect nfd (defaultConfig m) v Null = Inr False \<and>
            (thresholdFn cfg (model cfg) = Inr th \<longrightarrow> detect nfd cfg v Null = Inr False)) \<and>
         (truthy v \<and> typeof v \<noteq> T_string \<longrightarrow>
            sanitizeText nfd v = Inl (Error ''Input sample must be a string'') \<and>
            detect nfd cfg v Null = Inl (Error ''Input sample must be a string''))"
proof (intro conjI impI)
  assume f: "\<not> truthy v"
  show s: "sanitizeText nfd v = Inr []" using assms f by (rule sanitizeText_falsy)
  show "detect nfd (defaultConfig m) v Null = Inr False"
    using testGibberish_zero_pairs [OF s, of "\<lambda>m. Inr (calculateThreshold m)"]
    by (simp add: detect_def defaultConfig_def)
  assume "thresholdFn cfg (model cfg) = Inr th"
  then show "detect nfd cfg v Null = Inr False"
    using testGibberish_zero_pairs [OF s] by (simp add: detect_def)
next
  assume t: "truthy v \<and> typeof v \<noteq> T_string"
  then show s: "sanitizeText nfd v = Inl (Error ''Input sample must be a string'')"
    by (simp add: sanitizeText_wrong_type)
  then show "detect nfd cfg v Null = Inl (Error ''Input sample must be a string'')"
    by (simp add: detect_def testGibberish_def assignScore_def)
qed

subsection \<open>The score engine on concrete inputs\<close>

lemmas score_eval =
  assignScore_fold [OF sanitizeText_Str] sanitize_string_def convertToLatinEquivalent_def Let_def
  replace_unit str_split_def lit_def nfd_sample_def is_terminator_def is_noise_def
  is_combining_def toLowerCase_def lower_unit_def bigrams_def score_acc_def
  convertJSONMatrixIntoMap_def toy_model_def

lemma toy_score: "assignScore nfd_sample (Str (lit ''Hello'')) (matrix toy_model) True = Inr (Fin (3 / 2))"
  by (simp add: score_eval)

text \<open>C1, as stated, fails: \<open>detect("")\<close> and \<open>detect("a")\<close> return false.\<close>

theorem detect_zero_pairs_counterexample:
  "detect nfd_sample (defaultConfig toy_model) (Str (lit '''')) Null = Inr False \<and>
   detect nfd_sample (defaultConfig toy_model) (Str (lit ''a'')) Null = Inr False"
  by (simp add: detect_def defaultConfig_def testGibberish_def score_eval calculateThreshold_def)

theorem detect_zero_pairs_witness:
  "sanitizeText nfd_sample (Str (lit ''A'')) = Inr (lit ''A'') \<and>
   length (toLowerCase (lit ''A'')) < 2 \<and>
   \<not> truthy Null \<and>
   thresholdFn (defaultConfig toy_model) (model (defaultConfig toy_model)) = Inr (Fin (3 / 2)) \<and>
   detect nfd_sample (defaultConfig toy_model) (Str (lit ''A'')) Null = Inr False"
proof -
  have a: "sanitizeText nfd_sample (Str (lit ''A'')) = Inr (lit ''A'')"
    by (simp add: sanitize_eval)
  have b: "length (toLowerCase (lit ''A'')) < 2" by (simp add: toLowerCase_def lit_def)
  have c: "\<not> truthy Null \<or> isValidModel Null = Inr True" by simp
  have d: "thresholdFn (defaultConfig toy_model)
             (if truthy Null then model_of Null else model (defaultConfig toy_model)) = Inr (Fin (3 / 2))"
    by (simp add: defaultConfig_def calculateThreshold_def toy_model_def)
  show ?thesis using detect_zero_pairs [OF a b c d] a b d by simp
qed

theorem assignScore_average_witness:
  "nfd_host nfd_sample \<and>
   toLowerCase (sanitize_string nfd_sample (lit ''ABCD'')) = lit ''abcd'' \<and>
   1 \<le> length (bigrams (lit ''abcd'')) \<and>
   list_all (\<lambda>e. positive (snd e)) [(lit ''ab'', Fin 1)] \<and>
   map (weight (map_of (rev [(lit ''ab'', Fin 1)]))) (bigrams (lit ''abcd'')) =
     map (\<lambda>n. Fin (of_nat n)) [1, 0, 0] \<and>
   sum_list [1, 0, 0 :: nat] < 2 ^ 53 \<and> length (lit ''abcd'') \<le> 2 ^ 53 \<and>
   assignScore nfd_sample (Str (lit ''ABCD'')) [(lit ''ab'', Fin 1)] False =
     Inr (Fin (6004799503160661 / 18014398509481984)) \<and>
   \<bar>6004799503160661 / 18014398509481984 - 1 / (3 :: rat)\<bar> \<le> 1 / 3 / 2 ^ 53"
proof -
  have a: "lit ''abcd'' = toLowerCase (sanitize_string nfd_sample (lit ''ABCD''))"
    by (simp add: sanitize_eval toLowerCase_def lower_unit_def)
  have b: "1 \<le> length (bigrams (lit ''abcd''))" by (simp add: bigrams_def lit_def)
  have c: "\<forall>e \<in> set [(lit ''ab'', Fin 1)]. positive (snd e)" by simp
  have d: "map (weight (map_of (rev [(lit ''ab'', Fin 1)]))) (bigrams (lit ''abcd'')) =
     map (\<lambda>n. Fin (of_nat n)) [1, 0, 0]"
    by (simp add: bigrams_def lit_def weight_def)
  have e: "sum_list [1, 0, 0 :: nat] < 2 ^ 53" "length (lit ''abcd'') \<le> 2 ^ 53"
    "sum_list [1, 0, 0 :: nat] = 1" "length (lit ''abcd'') - 1 = 3"
    by (simp_all add: lit_def)
  obtain s where s: "assignScore nfd_sample (Str (lit ''ABCD'')) [(lit ''ab'', Fin 1)] False = Inr (Fin s)"
    "fl (of_nat (sum_list [1, 0, 0]) / of_nat (length (lit ''abcd'') - 1)) = Fin s"
    "\<bar>s - of_nat (sum_list [1, 0, 0]) / of_nat (length (lit ''abcd'') - 1)\<bar>
       \<le> of_nat (sum_list [1, 0, 0]) / of_nat (length (lit ''abcd'') - 1) / 2 ^ 53"
    using assignScore_average [OF nfd_host_sample a b c, where ns = "[1, 0, 0]" and uc = False]
      d e(1,2) by blast
  have "s = 6004799503160661 / 18014398509481984"
    using s(2) unfolding e(3,4) by (simp add: fl_third)
  then show ?thesis using nfd_host_sample a b d e(1,2) s(1,3) unfolding e(3,4) by simp
qed

text \<open>Two counts of \<open>2^1023\<close> add up to \<open>Infinity\<close>, and so does the score.\<close>

lemma assignScore_overflow:
  "assignScore nfd_sample (Str (lit ''aba''))
     [(lit ''ab'', Fin (2 ^ 1023)), (lit ''ba'', Fin (2 ^ 1023))] True = Inr PosInf"
proof -
  have p: "fl (2 ^ 1023) = Fin (2 ^ 1023)"
    using fl_representable_pos [of 1 1023] by simp
  have q: "fl (2 * 2 ^ 1023) = PosInf"
    by (rule fl_overflow) simp
  have k: "lit ''ab'' \<noteq> lit ''ba''" by (simp add: lit_def)
  have t: "convertJSONMatrixIntoMap [(lit ''ab'', Fin (2 ^ 1023)), (lit ''ba'', Fin (2 ^ 1023))] =
      [lit ''ab'' \<mapsto> Fin (2 ^ 1023), lit ''ba'' \<mapsto> Fin (2 ^ 1023)]"
    by (simp add: convertJSONMatrixIntoMap_def)
  have b: "bigrams (toLowerCase (str_join (str_split (sanitize_string nfd_sample (lit ''aba'')) [LF]) [SP])) =
      [lit ''ab'', lit ''ba'']"
    by (simp add: sanitize_eval toLowerCase_def lower_unit_def bigrams_def)
  have n: "num_truthy (Fin (2 ^ 1023))" by simp
  have "foldl (score_acc [lit ''ab'' \<mapsto> Fin (2 ^ 1023), lit ''ba'' \<mapsto> Fin (2 ^ 1023)])
          (Fin 0) [lit ''ab'', lit ''ba''] = PosInf"
    using k n by (simp add: score_acc_def p q del: power_numeral num_truthy.simps)
  then show ?thesis
    unfolding assignScore_fold [OF sanitizeText_Str] t b by simp
qed

theorem sanitize_input_types_witness:
  "nfd_host nfd_sample \<and> \<not> truthy (Bool False) \<and>
   thresholdFn (defaultConfig toy_model) (model (defaultConfig toy_model)) = Inr (Fin (3 / 2)) \<and>
   sanitizeText nfd_sample (Bool False) = Inr [] \<and>
   detect nfd_sample (defaultConfig toy_model) (Bool False) Null = Inr False \<and>
   truthy (Arr []) \<and> typeof (Arr []) \<noteq> T_string \<and>
   sanitizeText nfd_sample (Arr []) = Inl (Error ''Input sample must be a string'') \<and>
   detect nfd_sample (defaultConfig toy_model) (Arr []) Null =
     Inl (Error ''Input sample must be a string'')"
  using sanitize_input_types [OF nfd_host_sample, of "Bool False" toy_model "defaultConfig toy_model" "Fin (3 / 2)"]
    sanitize_input_types [OF nfd_host_sample, of "Arr []" toy_model "defaultConfig toy_model" "Fin (3 / 2)"]
    nfd_host_sample
  by (simp add: defaultConfig_def calculateThreshold_def toy_model_def)

section \<open>Properties of the validators\<close>

lemma lit_keys [simp]:
  "lit ''x'' \<noteq> lit ''y''" "lit ''min'' \<noteq> lit ''max''" "lit ''min'' \<noteq> lit ''avg''"
  "lit ''max'' \<noteq> lit ''avg''" "lit ''matrix'' \<noteq> lit ''baseline''" "lit ''good'' \<noteq> lit ''bad''"
  "lit ''y'' \<noteq> lit ''x''" "lit ''max'' \<noteq> lit ''min''" "lit ''avg'' \<noteq> lit ''min''"
  "lit ''avg'' \<noteq> lit ''max''" "lit ''baseline'' \<noteq> lit ''matrix''" "lit ''bad'' \<noteq> lit ''good''"
  by (simp_all add: lit_def)

lemma matrix_entry_bad_val: "matrix_entry_bad (entry_val e) = Inr (length (fst e) \<noteq> 2)"
  by (simp add: matrix_entry_bad_def entry_val_def andThen_def)

lemma some_bad_vals:
  "some_bad (map entry_val es) = Inr (\<not> list_all (\<lambda>e. length (fst e) = 2) es)"
  by (induction es) (simp_all add: matrix_entry_bad_val)

lemma isValidMatrix_vals:
  "isValidMatrix (Arr (map entry_val es)) = Inr (list_all (\<lambda>e. length (fst e) = 2) es)"
  by (simp add: isValidMatrix_def some_bad_vals andThen_def)

lemma some_bad_member:
  "m \<in> set ms \<Longrightarrow> matrix_entry_bad m = Inr True \<Longrightarrow> some_bad ms \<noteq> Inr False"
  by (induction ms) (auto split: sum.splits)

lemma matrix_entry_bad_count:
  "typeof (prop_of (Obj ps) ''y'') \<noteq> T_number \<Longrightarrow> matrix_entry_bad (Obj ps) = Inr True"
  by (auto simp: matrix_entry_bad_def andThen_def split: option.splits jsval.splits)

lemma stats_numeric_val: "stats_numeric (stats_val a b c) = Inr True"
  by (simp add: stats_numeric_def stats_val_def andThen_def)

lemma stats_val_object [simp]:
  "truthy (stats_val a b c)" "typeof (stats_val a b c) = T_object" "\<not> isArray (stats_val a b c)"
  by (simp_all add: stats_val_def)

lemma isValidModel_val:
  "isValidModel (model_val es g b) = Inr (list_all (\<lambda>e. length (fst e) = 2) es)"
  by (simp add: isValidModel_def model_val_def andThen_def isValidMatrix_vals stats_numeric_val)

lemma entry_of_val [simp]: "entry_of (entry_val e) = e"
  by (simp add: entry_of_def entry_val_def)

lemma stats_of_val [simp]: "stats_of (stats_val (smin g) (smax g) (avg g)) = g"
  by (simp add: stats_of_def stats_val_def)

lemma model_of_val: "model_of (model_val es g b) = \<lparr>matrix = es, baseline = \<lparr>good = g, bad = b\<rparr>\<rparr>"
  by (simp add: model_of_def model_val_def map_idI)

text \<open>
  C6, as amended. \<open>isValidMatrix\<close>, and with it \<open>isValidModel\<close>, checks types only.
  For a matrix whose entries are objects with a string \<open>x\<close> and a number \<open>y\<close> it
  returns true exactly when every \<open>x\<close> has length 2, whatever the counts are: negative,
  zero, \<open>NaN\<close> and fractional counts are accepted. It never returns true for a matrix
  that holds an object entry whose \<open>y\<close> is not of type number.
\<close>

theorem isValidMatrix_types_only:
  "isValidMatrix (Arr (map entry_val es)) = Inr (list_all (\<lambda>e. length (fst e) = 2) es) \<and>
   isValidModel (model_val es g b) = Inr (list_all (\<lambda>e. length (fst e) = 2) es) \<and>
   (Obj ps \<in> set ms \<and> typeof (prop_of (Obj ps) ''y'') \<noteq> T_number
      \<longrightarrow> isValidMatrix (Arr ms) \<noteq> Inr True)"
proof -
  have "isValidMatrix (Arr ms) \<noteq> Inr True"
    if "Obj ps \<in> set ms" "typeof (prop_of (Obj ps) ''y'') \<noteq> T_number"
    using some_bad_member [OF that(1) matrix_entry_bad_count [OF that(2)]]
    by (auto simp: isValidMatrix_def andThen_def split: sum.splits)
  then show ?thesis by (simp add: isValidMatrix_vals isValidModel_val)
qed

text \<open>C6, as stated, fails: a matrix with the counts \<open>-1\<close>, \<open>0\<close>, \<open>NaN\<close> and
  \<open>1/2\<close> is valid, and so is a model that holds it.\<close>

theorem isValidMatrix_counts_counterexample:
  "isValidMatrix (Arr [entry_val (lit ''ab'', Fin (- 1)), entry_val (lit ''cd'', Fin 0),
                       entry_val (lit ''ef'', NaN), entry_val (lit ''gh'', Fin (1 / 2))]) = Inr True \<and>
   isValidModel (model_val [(lit ''ab'', Fin (- 1)), (lit ''cd'', Fin 0), (lit ''ef'', NaN),
                            (lit ''gh'', Fin (1 / 2))]
                   (good (baseline toy_model)) (bad (baseline toy_model))) = Inr True"
  using isValidMatrix_vals [of "[(lit ''ab'', Fin (- 1)), (lit ''cd'', Fin 0), (lit ''ef'', NaN), (lit ''gh'', Fin (1 / 2))]"]
  by (simp add: isValidModel_val lit_def)

theorem isValidMatrix_types_only_witness:
  "isValidMatrix (Arr (map entry_val [(lit ''ab'', Fin (- 7))])) = Inr True \<and>
   Obj [(lit ''x'', Str (lit ''ab'')), (lit ''y'', Str (lit ''7''))]
     \<in> set [Obj [(lit ''x'', Str (lit ''ab'')), (lit ''y'', Str (lit ''7''))]] \<and>
   typeof (prop_of (Obj [(lit ''x'', Str (lit ''ab'')), (lit ''y'', Str (lit ''7''))]) ''y'') \<noteq> T_number \<and>
   isValidMatrix (Arr [Obj [(lit ''x'', Str (lit ''ab'')), (lit ''y'', Str (lit ''7''))]]) \<noteq> Inr True"
proof -
  have a: "typeof (prop_of (Obj [(lit ''x'', Str (lit ''ab'')), (lit ''y'', Str (lit ''7''))]) ''y'') \<noteq> T_number"
    by simp
  show ?thesis
    using isValidMatrix_types_only [of "[(lit ''ab'', Fin (- 7))]" "good (baseline toy_model)" "bad (baseline toy_model)"
        "[(lit ''x'', Str (lit ''ab'')), (lit ''y'', Str (lit ''7''))]"
        "[Obj [(lit ''x'', Str (lit ''ab'')), (lit ''y'', Str (lit ''7''))]]"] a
    by (simp add: lit_def)
qed

lemma score_acc_empty: "foldl (score_acc (convertJSONMatrixIntoMap [])) t ps = t"
  by (induction ps) (simp_all add: score_acc_def convertJSONMatrixIntoMap_def)

lemma assignScore_empty_matrix:
  "assignScore nfd (Str text) [] uc =
     Inr (if length (sanitize_string nfd text) < 2 then NaN else Fin 0)"
  by (simp add: assignScore_fold [OF sanitizeText_Str] score_acc_empty length_bigrams)

text \<open>
  C10. \<open>isValidMatrix\<close> returns true for the empty array, a model with an empty
  matrix and numeric baseline fields passes \<open>isValidModel\<close>, and \<open>detect\<close> accepts it as
  an override: it goes on to \<open>testGibberish\<close> with that model. Against the empty
  matrix no pair adds to the total, which stays 0, so the score is 0 for a text with
  at least one pair (and \<open>NaN\<close> for a text with none).
\<close>

theorem empty_matrix_model:
  "isValidMatrix (Arr []) = Inr True \<and>
   isValidModel (model_val [] g b) = Inr True \<and>
   detect nfd cfg t (model_val [] g b) =
     testGibberish nfd t \<lparr>matrix = [], baseline = \<lparr>good = g, bad = b\<rparr>\<rparr>
       (Some (thresholdFn cfg)) (useCache cfg) \<and>
   totalScore (score_loop cs (convertJSONMatrixIntoMap []) uc 0
       \<lparr>modelCache = Map.empty, pairCount = 0, totalScore = Fin 0\<rparr>) = Fin 0 \<and>
   assignScore nfd (Str text) [] uc =
     Inr (if length (sanitize_string nfd text) < 2 then NaN else Fin 0)"
proof -
  have "truthy (model_val [] g b)" by (simp add: model_val_def)
  then have "detect nfd cfg t (model_val [] g b) =
     testGibberish nfd t \<lparr>matrix = [], baseline = \<lparr>good = g, bad = b\<rparr>\<rparr>
       (Some (thresholdFn cfg)) (useCache cfg)"
    by (simp add: detect_def isValidModel_val model_of_val)
  moreover have "totalScore (score_loop cs (convertJSONMatrixIntoMap []) uc 0
       \<lparr>modelCache = Map.empty, pairCount = 0, totalScore = Fin 0\<rparr>) = Fin 0"
    using fold_score_step [of "convertJSONMatrixIntoMap []"
        "\<lparr>modelCache = Map.empty, pairCount = 0, totalScore = Fin 0\<rparr>" uc "bigrams cs"]
    by (simp add: score_loop_fold cache_ok_def score_acc_empty)
  moreover have "isValidMatrix (Arr []) = Inr True" using isValidMatrix_vals [of "[]"] by simp
  ultimately show ?thesis by (simp add: isValidModel_val assignScore_empty_matrix)
qed

theorem empty_matrix_model_witness:
  "isValidModel (model_val [] (good (baseline toy_model)) (bad (baseline toy_model))) = Inr True \<and>
   detect nfd_sample (defaultConfig toy_model) (Str (lit ''hello''))
     (model_val [] (good (baseline toy_model)) (bad (baseline toy_model))) = Inr True \<and>
   assignScore nfd_sample (Str (lit ''hello'')) [] True = Inr (Fin 0)"
proof -
  have l: "\<not> length (sanitize_string nfd_sample (lit ''hello'')) < 2"
    by (simp add: sanitize_eval)
  have t: "testGibberish nfd_sample (Str (lit ''hello''))
             \<lparr>matrix = [], baseline = \<lparr>good = good (baseline toy_model), bad = bad (baseline toy_model)\<rparr>\<rparr>
             (Some (thresholdFn (defaultConfig toy_model))) (useCache (defaultConfig toy_model)) = Inr True"
    using l by (simp add: testGibberish_def assignScore_empty_matrix defaultConfig_def
        calculateThreshold_def toy_model_def)
  show ?thesis
    using empty_matrix_model [of "good (baseline toy_model)" "bad (baseline toy_model)"
        nfd_sample "defaultConfig toy_model" "Str (lit ''hello'')" "[]" True "lit ''hello''"] l t
    by simp
qed

section \<open>Properties of the configuration\<close>

text \<open>
  C9. \<open>set\<close> is atomic on error: the candidate is validated on a clone that carries
  the new value; when that validation fails, \<open>set\<close> raises the validation error and
  the stored configuration is the one before the call, so \<open>get(name)\<close> returns the
  prior value; when it passes, the value is stored.
\<close>

theorem config_set_atomic:
  "(testConfig (assign cfg name v) = Inl e \<longrightarrow>
      config_set cfg name v = (Inl e, cfg) \<and>
      config_get (snd (config_set cfg name v)) name = config_get cfg name) \<and>
   (fst (config_set cfg name v) = Inl e \<longrightarrow> snd (config_set cfg name v) = cfg) \<and>
   (testConfig (assign cfg name v) = Inr () \<longrightarrow>
      config_set cfg name v = (Inr (), assign cfg name v))"
  by (auto simp: config_set_def Let_def split: sum.splits)

lemma toy_config_valid: "testConfig toy_config = Inr ()"
  by (simp add: testConfig_def toy_config_def own_def andThen_def isValidModel_val toy_model_def lit_def)

theorem config_set_atomic_witness:
  "testConfig (assign toy_config (lit ''useCache'') (Str (lit ''What?''))) =
     Inl (Error ''useCache must be a boolean'') \<and>
   config_set toy_config (lit ''useCache'') (Str (lit ''What?'')) =
     (Inl (Error ''useCache must be a boolean''), toy_config) \<and>
   config_get toy_config (lit ''useCache'') = Some (Bool True) \<and>
   testConfig (assign toy_config (lit ''useCache'') (Bool False)) = Inr () \<and>
   config_set toy_config (lit ''useCache'') (Bool False) =
     (Inr (), assign toy_config (lit ''useCache'') (Bool False))"
proof -
  have a: "testConfig (assign toy_config (lit ''useCache'') (Str (lit ''What?''))) =
     Inl (Error ''useCache must be a boolean'')"
    by (simp add: testConfig_def assign_def toy_config_def own_def andThen_def isValidModel_val toy_model_def lit_def)
  have b: "testConfig (assign toy_config (lit ''useCache'') (Bool False)) = Inr ()"
    by (simp add: testConfig_def assign_def toy_config_def own_def andThen_def isValidModel_val toy_model_def lit_def)
  have c: "config_get toy_config (lit ''useCache'') = Some (Bool True)"
    by (simp add: config_get_def toy_config_def lit_def)
  show ?thesis
    using config_set_atomic [of toy_config "lit ''useCache''" "Str (lit ''What?'')" "Error ''useCache must be a boolean''"]
      config_set_atomic [of toy_config "lit ''useCache''" "Bool False" "Error []"] a b c
    by simp
qed

section \<open>Properties of calibration and training\<close>

lemma assignScore_Str_total: "\<exists>n. assignScore nfd (Str s) m uc = Inr n"
  by (simp add: assignScore_fold [OF sanitizeText_Str])

lemma map_result_total:
  assumes "\<And>x. \<exists>y. f x = Inr y"
  shows "\<exists>ys. map_result f xs = Inr ys \<and> length ys = length xs"
proof (induction xs)
  case Nil
  then show ?case by simp
next
  case (Cons x xs)
  obtain y where "f x = Inr y" using assms by blast
  moreover obtain ys where "map_result f xs = Inr ys" "length ys = length xs" using Cons by blast
  ultimately show ?case by simp
qed

lemma scoreLines_total: "\<exists>st. scoreLines nfd ls m = Inr st"
proof -
  obtain ys where "map_result (\<lambda>line. assignScore nfd (Str (trim line)) m True) ls = Inr ys"
    using map_result_total [of "\<lambda>line. assignScore nfd (Str (trim line)) m True" ls]
      assignScore_Str_total by blast
  then show ?thesis by (simp add: scoreLines_def)
qed

lemma scoreLines_Nil: "scoreLines nfd [] m = Inr \<lparr>smin = PosInf, smax = NegInf, avg = NaN\<rparr>"
  by (simp add: scoreLines_def Math_min_def Math_max_def)

text \<open>
  C5, as amended. Calibration of an empty line set raises nothing: \<open>scoreLines\<close>
  returns the degenerate statistics \<open>{min: Infinity, max: -Infinity, avg: NaN}\<close>, and
  \<open>train\<close> on a corpus string with an empty \<open>goodLines\<close> or \<open>badLines\<close> array returns a
  model whose baseline for that set is these statistics.
\<close>

theorem scoreLines_empty:
  "scoreLines nfd [] m = Inr \<lparr>smin = PosInf, smax = NegInf, avg = NaN\<rparr> \<and>
   (\<exists>mdl. train nfd (Str corpus) (LineArray []) bl = Inr mdl \<and>
          good (baseline mdl) = \<lparr>smin = PosInf, smax = NegInf, avg = NaN\<rparr>) \<and>
   (\<exists>mdl. train nfd (Str corpus) gl (LineArray []) = Inr mdl \<and>
          bad (baseline mdl) = \<lparr>smin = PosInf, smax = NegInf, avg = NaN\<rparr>)"
proof (intro conjI)
  show "scoreLines nfd [] m = Inr \<lparr>smin = PosInf, smax = NegInf, avg = NaN\<rparr>"
    by (rule scoreLines_Nil)
next
  define M where "M = map (\<lambda>e. (fst e, Fin (of_nat (snd e))))
     (sort_key (\<lambda>e. - int (snd e))
       (map (\<lambda>a. heap (train_loop (toLowerCase (sanitize_string nfd corpus)) 0
                \<lparr>heap = [], analysis = [], analysisCache = Map.empty\<rparr>) ! a)
          (analysis (train_loop (toLowerCase (sanitize_string nfd corpus)) 0
                \<lparr>heap = [], analysis = [], analysisCache = Map.empty\<rparr>))))"
  obtain b where b: "scoreLines nfd (to_lines bl) M = Inr b" using scoreLines_total by blast
  obtain g where g: "scoreLines nfd (to_lines gl) M = Inr g" using scoreLines_total by blast
  show "\<exists>mdl. train nfd (Str corpus) (LineArray []) bl = Inr mdl \<and>
          good (baseline mdl) = \<lparr>smin = PosInf, smax = NegInf, avg = NaN\<rparr>"
    using b by (simp add: train_def sanitizeText_Str Let_def scoreLines_Nil M_def)
  show "\<exists>mdl. train nfd (Str corpus) gl (LineArray []) = Inr mdl \<and>
          bad (baseline mdl) = \<lparr>smin = PosInf, smax = NegInf, avg = NaN\<rparr>"
    using g by (simp add: train_def sanitizeText_Str Let_def scoreLines_Nil M_def)
qed

lemma train_loop_fold:
  "train_loop cs x st = fold train_step (bigrams (drop x cs)) st"
proof (induction cs x st rule: train_loop.induct)
  case (1 split x st)
  show ?case
  proof (cases "x + 1 < length split")
    case True
    then show ?thesis
      using 1 by (subst train_loop.simps) (simp add: bigrams_drop)
  next
    case False
    then have "bigrams (drop x split) = []" by (simp add: bigrams_short)
    with False show ?thesis by (subst train_loop.simps) simp
  qed
qed

lemma map_of_update_nth:
  assumes "distinct (map fst h)" and "a < length h"
  shows "map_of (h[a := (fst (h ! a), v)]) = (map_of h)(fst (h ! a) \<mapsto> v)"
  using assms
proof (induction h arbitrary: a)
  case Nil
  then show ?case by simp
next
  case (Cons e h)
  show ?case
  proof (cases a)
    case 0
    then show ?thesis by (cases e) auto
  next
    case (Suc a')
    then have a': "a' < length h" using Cons.prems by simp
    have ne: "fst e \<noteq> fst (h ! a')" using Cons.prems(1) a' by (metis distinct.simps(2) list.simps(9) nth_map nth_mem length_map)
    have d: "distinct (map fst h)" using Cons.prems(1) by simp
    have IH: "map_of (h[a' := (fst (h ! a'), v)]) = (map_of h)(fst (h ! a') \<mapsto> v)"
      using Cons.IH [OF d a'] .
    show ?thesis using Suc ne by (cases e) (auto simp: IH fun_upd_twist)
  qed
qed

lemma sum_list_update_snd:
  "a < length h \<Longrightarrow> sum_list (map snd (h[a := (k, snd (h ! a) + 1)])) = sum_list (map snd h) + (1::nat)"
proof (induction h arbitrary: a)
  case Nil
  then show ?case by simp
next
  case (Cons e h)
  then show ?case by (cases a) auto
qed

lemma train_step_inv:
  assumes "train_inv st ps"
  shows "train_inv (train_step p st) (ps @ [p])"
proof (cases "analysisCache st p")
  case None
  have an: "analysis st = [0..<length (heap st)]" and di: "distinct (map fst (heap st))"
    and ca: "\<And>q a. analysisCache st q = Some a \<longleftrightarrow> a < length (heap st) \<and> fst (heap st ! a) = q"
    and mo: "\<And>q. map_of (heap st) q = (if q \<in> set ps then Some (count_list ps q) else None)"
    and su: "sum_list (map snd (heap st)) = length ps"
    using assms by (auto simp: train_inv_def)
  have notin: "p \<notin> fst ` set (heap st)"
  proof
    assume "p \<in> fst ` set (heap st)"
    then obtain a where "a < length (heap st)" "fst (heap st ! a) = p"
      by (metis imageE in_set_conv_nth)
    then have "analysisCache st p = Some a" using ca by simp
    with None show False by simp
  qed
  then have pn: "p \<notin> set ps" using mo [of p] by (metis map_of_eq_None_iff option.distinct(1))
  have st': "train_step p st = \<lparr>heap = heap st @ [(p, 1)], analysis = analysis st @ [length (heap st)],
      analysisCache = (analysisCache st)(p \<mapsto> length (heap st))\<rparr>"
    using None by (simp add: train_step_def Let_def)
  have c1: "analysis (train_step p st) = [0..<length (heap (train_step p st))]"
    by (simp add: st' an)
  have c2: "distinct (map fst (heap (train_step p st)))"
    using di notin by (simp add: st')
  have c3: "\<And>q a. analysisCache (train_step p st) q = Some a \<longleftrightarrow>
      a < length (heap (train_step p st)) \<and> fst (heap (train_step p st) ! a) = q"
  proof -
    fix q a
    show "analysisCache (train_step p st) q = Some a \<longleftrightarrow>
      a < length (heap (train_step p st)) \<and> fst (heap (train_step p st) ! a) = q"
    proof (cases "a < length (heap st)")
      case True
      then have "fst (heap st ! a) \<noteq> p" using notin by (metis image_eqI nth_mem)
      then show ?thesis using True ca [of q a] by (auto simp: st' nth_append)
    next
      case False
      then show ?thesis using ca [of q a] by (auto simp: st' nth_append)
    qed
  qed
  have c4: "\<And>q. map_of (heap (train_step p st)) q =
      (if q \<in> set (ps @ [p]) then Some (count_list (ps @ [p]) q) else None)"
    using mo pn by (auto simp: st' map_add_def split: option.splits)
  have c5: "sum_list (map snd (heap (train_step p st))) = length (ps @ [p])"
    using su by (simp add: st')
  show ?thesis unfolding train_inv_def using c1 c2 c3 c4 c5 by blast
next
  case (Some a)
  have an: "analysis st = [0..<length (heap st)]" and di: "distinct (map fst (heap st))"
    and ca: "\<And>q a. analysisCache st q = Some a \<longleftrightarrow> a < length (heap st) \<and> fst (heap st ! a) = q"
    and mo: "\<And>q. map_of (heap st) q = (if q \<in> set ps then Some (count_list ps q) else None)"
    and su: "sum_list (map snd (heap st)) = length ps"
    using assms by (auto simp: train_inv_def)
  have al: "a < length (heap st)" and ap: "fst (heap st ! a) = p" using ca [of p a] Some by auto
  define h' where "h' = (heap st)[a := (fst (heap st ! a), snd (heap st ! a) + 1)]"
  have st': "train_step p st = st\<lparr>heap := h'\<rparr>"
    using Some by (simp add: train_step_def h'_def)
  have fsts: "map fst h' = map fst (heap st)"
    unfolding h'_def by (simp add: map_update list_update_same_conv al)
  have len: "length h' = length (heap st)" by (simp add: h'_def)
  have nthf: "\<And>b. b < length (heap st) \<Longrightarrow> fst (h' ! b) = fst (heap st ! b)"
    by (metis fsts len nth_map)
  have mp: "map_of (heap st) p = Some (snd (heap st ! a))"
    using di al ap by (metis map_of_is_SomeI nth_mem prod.collapse)
  then have pin: "p \<in> set ps" and cnt: "snd (heap st ! a) = count_list ps p"
    using mo [of p] by (auto split: if_splits)
  have mo': "map_of h' = (map_of (heap st))(p \<mapsto> count_list ps p + 1)"
    unfolding h'_def using map_of_update_nth [OF di al] ap cnt by simp
  have c1: "analysis (train_step p st) = [0..<length (heap (train_step p st))]"
    by (simp add: st' an len)
  have c2: "distinct (map fst (heap (train_step p st)))" by (simp add: st' fsts di)
  have c3: "\<And>q b. analysisCache (train_step p st) q = Some b \<longleftrightarrow>
      b < length (heap (train_step p st)) \<and> fst (heap (train_step p st) ! b) = q"
    using ca nthf by (auto simp: st' len)
  have c4: "\<And>q. map_of (heap (train_step p st)) q =
      (if q \<in> set (ps @ [p]) then Some (count_list (ps @ [p]) q) else None)"
    using mo pin by (auto simp: st' mo')
  have c5: "sum_list (map snd (heap (train_step p st))) = length (ps @ [p])"
    using su sum_list_update_snd [OF al, of "fst (heap st ! a)"] by (simp add: st' h'_def)
  show ?thesis unfolding train_inv_def using c1 c2 c3 c4 c5 by blast
qed

lemma fold_train_step_inv:
  "train_inv st qs \<Longrightarrow> train_inv (fold train_step ps st) (qs @ ps)"
proof (induction ps arbitrary: st qs)
  case Nil
  then show ?case by simp
next
  case (Cons p ps)
  show ?case using Cons.IH [OF train_step_inv [OF Cons.prems, of p]] by simp
qed

lemma train_inv_init: "train_inv \<lparr>heap = [], analysis = [], analysisCache = Map.empty\<rparr> []"
  by (simp add: train_inv_def)

lemma train_loop_inv:
  "train_inv (train_loop cs 0 \<lparr>heap = [], analysis = [], analysisCache = Map.empty\<rparr>) (bigrams cs)"
  using fold_train_step_inv [OF train_inv_init, of "bigrams cs"] by (simp add: train_loop_fold)

lemma sum_list_insort_key:
  "sum_list (map f (insort_key g x xs)) = f x + (sum_list (map f xs) :: nat)"
  by (induction xs) auto

lemma sum_list_sort_key: "sum_list (map f (sort_key g xs)) = (sum_list (map f xs) :: nat)"
  by (induction xs) (simp_all add: sum_list_insort_key)

lemma distinct_fst_sort_key: "distinct (map fst (sort_key g xs)) = distinct (map fst xs)"
  by (simp add: distinct_map)

lemma map_of_sort_key:
  "distinct (map fst xs) \<Longrightarrow> map_of (sort_key g xs) = map_of xs"
  using map_of_inject_set [of "sort_key g xs" xs] by (simp add: distinct_fst_sort_key)

lemma map_of_map_snd:
  "map_of (map (\<lambda>e. (fst e, f (snd e))) xs) p = map_option f (map_of xs p)"
  by (induction xs) auto

lemma num_sum_Fin: "num_sum (map (\<lambda>n. Fin (of_nat n)) ns) = Fin (of_nat (sum_list ns))"
  by (induction ns) (simp_all add: num_sum_def)

lemma train_Str:
  "\<exists>g b. train nfd (Str corpus) gl bl =
     Inr \<lparr>matrix = trained (toLowerCase (sanitize_string nfd corpus)),
          baseline = \<lparr>good = g, bad = b\<rparr>\<rparr>"
proof -
  obtain g where g: "scoreLines nfd (to_lines gl) (trained (toLowerCase (sanitize_string nfd corpus))) = Inr g"
    using scoreLines_total by blast
  obtain b where b: "scoreLines nfd (to_lines bl) (trained (toLowerCase (sanitize_string nfd corpus))) = Inr b"
    using scoreLines_total by blast
  have "train nfd (Str corpus) gl bl =
     Inr \<lparr>matrix = trained (toLowerCase (sanitize_string nfd corpus)),
          baseline = \<lparr>good = g, bad = b\<rparr>\<rparr>"
    using g b unfolding trained_def by (simp add: train_def sanitizeText_Str Let_def)
  then show ?thesis by blast
qed

lemma trained_table:
  "distinct (map fst (trained cs))"
  "map_of (trained cs) p =
     (if p \<in> set (bigrams cs) then Some (Fin (of_nat (count_list (bigrams cs) p))) else None)"
  "num_sum (map snd (trained cs)) = Fin (of_nat (length (bigrams cs)))"
proof -
  define st where "st = train_loop cs 0 \<lparr>heap = [], analysis = [], analysisCache = Map.empty\<rparr>"
  have inv: "train_inv st (bigrams cs)" unfolding st_def by (rule train_loop_inv)
  have an: "map (\<lambda>a. heap st ! a) (analysis st) = heap st"
    using inv by (simp add: train_inv_def map_nth)
  have di: "distinct (map fst (heap st))" using inv by (simp add: train_inv_def)
  have tr: "trained cs = map (\<lambda>e. (fst e, Fin (of_nat (snd e)))) (sort_key (\<lambda>e. - int (snd e)) (heap st))"
    by (simp add: trained_def st_def [symmetric] an)
  have fsts: "map fst (trained cs) = map fst (sort_key (\<lambda>e. - int (snd e)) (heap st))"
    by (simp add: tr comp_def)
  show "distinct (map fst (trained cs))"
    unfolding fsts by (simp add: distinct_fst_sort_key di)
  have "map_of (trained cs) p = map_option (\<lambda>n. Fin (of_nat n)) (map_of (heap st) p)"
    unfolding tr
    using map_of_map_snd [of "\<lambda>n. Fin (of_nat n)" "sort_key (\<lambda>e. - int (snd e)) (heap st)" p]
    by (simp add: map_of_sort_key [OF di])
  then show "map_of (trained cs) p =
     (if p \<in> set (bigrams cs) then Some (Fin (of_nat (count_list (bigrams cs) p))) else None)"
    using inv by (simp add: train_inv_def)
  have "map snd (trained cs) = map (\<lambda>n. Fin (of_nat n)) (map snd (sort_key (\<lambda>e. - int (snd e)) (heap st)))"
    by (simp add: tr comp_def)
  then have "num_sum (map snd (trained cs)) = Fin (of_nat (sum_list (map snd (heap st))))"
    by (simp only: num_sum_Fin sum_list_sort_key)
  then show "num_sum (map snd (trained cs)) = Fin (of_nat (length (bigrams cs)))"
    using inv by (simp add: train_inv_def)
qed

lemma trained_short: "length cs < 2 \<Longrightarrow> trained cs = []"
  by (simp add: trained_def train_loop_fold bigrams_short)

text \<open>
  C7. For every corpus string, with \<open>cs\<close> its sanitized, lowercased form, \<open>train\<close>
  returns a model whose matrix has one entry for each distinct adjacent pair of \<open>cs\<close>,
  holding the number of occurrences of the pair, and no other entry; the counts add up
  to \<open>length cs - 1\<close> observations when \<open>cs\<close> has at least two characters, and the
  matrix is empty when \<open>cs\<close> has fewer.
\<close>

theorem train_table:
  assumes "cs = toLowerCase (sanitize_string nfd corpus)"
  shows "\<exists>mdl. train nfd (Str corpus) gl bl = Inr mdl \<and>
           distinct (map fst (matrix mdl)) \<and>
           (\<forall>p. map_of (matrix mdl) p =
              (if p \<in> set (bigrams cs) then Some (Fin (of_nat (count_list (bigrams cs) p)))
               else None)) \<and>
           (2 \<le> length cs \<longrightarrow> num_sum (map snd (matrix mdl)) = Fin (of_nat (length cs - 1))) \<and>
           (length cs < 2 \<longrightarrow> matrix mdl = [])"
proof -
  obtain g b where "train nfd (Str corpus) gl bl =
     Inr \<lparr>matrix = trained cs, baseline = \<lparr>good = g, bad = b\<rparr>\<rparr>"
    using train_Str [of nfd corpus gl bl] assms by blast
  then show ?thesis
    using trained_table [of cs] trained_short [of cs] by (simp add: length_bigrams)
qed

theorem train_table_witness:
  "lit ''abab'' = toLowerCase (sanitize_string nfd_sample (lit ''AbAb'')) \<and>
   2 \<le> length (lit ''abab'') \<and>
   (\<exists>mdl. train nfd_sample (Str (lit ''AbAb'')) (LineArray []) (LineString []) = Inr mdl \<and>
      map_of (matrix mdl) (lit ''ab'') = Some (Fin 2) \<and>
      map_of (matrix mdl) (lit ''ba'') = Some (Fin 1) \<and>
      map_of (matrix mdl) (lit ''bb'') = None \<and>
      num_sum (map snd (matrix mdl)) = Fin 3) \<and>
   lit ''a'' = toLowerCase (sanitize_string nfd_sample (lit ''A9'')) \<and>
   length (lit ''a'') < 2 \<and>
   (\<exists>mdl. train nfd_sample (Str (lit ''A9'')) (LineArray []) (LineString []) = Inr mdl \<and>
      matrix mdl = [])"
proof -
  have a: "lit ''abab'' = toLowerCase (sanitize_string nfd_sample (lit ''AbAb''))"
    by (simp add: sanitize_eval toLowerCase_def lower_unit_def)
  have b: "lit ''a'' = toLowerCase (sanitize_string nfd_sample (lit ''A9''))"
    by (simp add: sanitize_eval toLowerCase_def lower_unit_def)
  have c: "bigrams (lit ''abab'') = [lit ''ab'', lit ''ba'', lit ''ab'']"
    by (simp add: bigrams_def lit_def)
  have l: "2 \<le> length (lit ''abab'')" "length (lit ''a'') < 2" "length (lit ''abab'') - 1 = 3"
    by (simp_all add: lit_def)
  obtain mdl where m: "train nfd_sample (Str (lit ''AbAb'')) (LineArray []) (LineString []) = Inr mdl"
    and t: "\<And>p. map_of (matrix mdl) p =
              (if p \<in> set (bigrams (lit ''abab''))
               then Some (Fin (of_nat (count_list (bigrams (lit ''abab'')) p))) else None)"
    and n: "num_sum (map snd (matrix mdl)) = Fin (of_nat (length (lit ''abab'') - 1))"
    using train_table [OF a, of "LineArray []" "LineString []"] l by auto
  have t1: "map_of (matrix mdl) (lit ''ab'') = Some (Fin 2)"
    unfolding t c by (simp add: lit_def)
  have t2: "map_of (matrix mdl) (lit ''ba'') = Some (Fin 1)"
    unfolding t c by (simp add: lit_def)
  have t3: "map_of (matrix mdl) (lit ''bb'') = None"
    unfolding t c by (simp add: lit_def)
  have n': "num_sum (map snd (matrix mdl)) = Fin 3" using n l(3) by simp
  obtain mdl' where m': "train nfd_sample (Str (lit ''A9'')) (LineArray []) (LineString []) = Inr mdl'"
    and e: "matrix mdl' = []"
    using train_table [OF b, of "LineArray []" "LineString []"] l by auto
  show ?thesis using a b l m t1 t2 t3 n' m' e by blast
qed

lemmas train_eval =
  train_def sanitizeText_Str train_loop_fold train_step_def scoreLines_def Math_min_def Math_max_def
  toLowerCase_def lower_unit_def bigrams_def Let_def

text \<open>C5, as stated, fails: with empty line sets \<open>scoreLines\<close> and \<open>train\<close> return
  values and raise no error.\<close>

theorem scoreLines_empty_counterexample:
  "scoreLines nfd_sample [] (matrix toy_model) = Inr \<lparr>smin = PosInf, smax = NegInf, avg = NaN\<rparr> \<and>
   train nfd_sample (Str (lit ''hehe'')) (LineArray []) (LineArray []) =
     Inr \<lparr>matrix = [(lit ''he'', Fin 2), (lit ''eh'', Fin 1)],
          baseline = \<lparr>good = \<lparr>smin = PosInf, smax = NegInf, avg = NaN\<rparr>,
                      bad = \<lparr>smin = PosInf, smax = NegInf, avg = NaN\<rparr>\<rparr>\<rparr>"
  by (simp add: train_eval sanitize_eval)

theorem scoreLines_empty_witness:
  "scoreLines nfd_sample [] [] = Inr \<lparr>smin = PosInf, smax = NegInf, avg = NaN\<rparr> \<and>
   (\<exists>mdl. train nfd_sample (Str (lit ''hi'')) (LineArray []) (LineArray [lit ''zz'']) = Inr mdl \<and>
          good (baseline mdl) = \<lparr>smin = PosInf, smax = NegInf, avg = NaN\<rparr>) \<and>
   (\<exists>mdl. train nfd_sample (Str (lit ''hi'')) (LineString (lit ''hi'')) (LineArray []) = Inr mdl \<and>
          bad (baseline mdl) = \<lparr>smin = PosInf, smax = NegInf, avg = NaN\<rparr>)"
  using scoreLines_empty [of nfd_sample "[]" "lit ''hi''" "LineArray [lit ''zz'']" "LineString (lit ''hi'')"]
  by simp

section \<open>The cache of the two scorers\<close>

text \<open>
  The scorer with the per-call \<open>Map\<close> returns the same value with the cache on and
  off, for every input and matrix (lemma \<open>assignScore_cache_transparent\<close> above), and
  its cache does not outlive the call. The scorer of \<open>index.js\<close> reads an identifier
  that nothing declares: with the cache on it stops with a \<open>ReferenceError\<close> at the
  first pair.
\<close>

lemma indexjs_cache_unbound:
  assumes "2 \<le> length (sanitize_string nfd text)"
  shows "assignScore_indexjs nfd None text m True = Inl ReferenceError"
proof -
  define cs where "cs = toLowerCase (str_join (str_split (sanitize_string nfd text) [LF]) [SP])"
  have l: "0 + 1 < length cs" using assms by (simp add: cs_def)
  have "indexjs_loop cs m True 0 \<lparr>cache_g = None, pairCount_i = 0, totalScore_i = Fin 0\<rparr> =
        Inl ReferenceError"
    using l by (subst indexjs_loop.simps) (auto simp: indexjs_step_def andThen_def)
  then show ?thesis by (simp add: assignScore_indexjs_def Let_def cs_def andThen_def)
qed

lemmas indexjs_eval =
  assignScore_indexjs_def indexjs_loop.simps indexjs_step_def andThen_def Let_def
  sanitize_string_def convertToLatinEquivalent_def replace_unit str_split_def lit_def
  nfd_sample_def is_terminator_def is_noise_def is_combining_def toLowerCase_def lower_unit_def

text \<open>
  C4, on the code of \<open>index.js\<close>. For the text \<open>"hi"\<close> and the matrix
  \<open>[{x: "hi", y: 3}]\<close>, scoring with the cache on throws a \<open>ReferenceError\<close> and
  scoring with the cache off returns 3; the other scorer returns 3 both ways.
\<close>

theorem indexjs_cache_reference_error:
  "assignScore_indexjs nfd_sample None (lit ''hi'') [(lit ''hi'', Fin 3)] True = Inl ReferenceError \<and>
   assignScore_indexjs nfd_sample None (lit ''hi'') [(lit ''hi'', Fin 3)] False = Inr (Fin 3, None) \<and>
   assignScore nfd_sample (Str (lit ''hi'')) [(lit ''hi'', Fin 3)] True = Inr (Fin 3) \<and>
   assignScore nfd_sample (Str (lit ''hi'')) [(lit ''hi'', Fin 3)] False = Inr (Fin 3)"
  by (simp add: indexjs_eval score_eval)

text \<open>Were the identifier bound to an object in the global scope, that object would
  carry entries from one call to the next: after a call against one matrix, a call
  against the empty matrix still finds the pair in the cache.\<close>

lemma indexjs_cache_carries_state:
  "\<exists>c. assignScore_indexjs nfd_sample (Some Map.empty) (lit ''hi'') [(lit ''hi'', Fin 3)] True
          = Inr (Fin 3, Some c) \<and>
        assignScore_indexjs nfd_sample (Some c) (lit ''hi'') [] True = Inr (Fin 3, Some c) \<and>
        assignScore_indexjs nfd_sample (Some c) (lit ''hi'') [] False = Inr (Fin 0, Some c)"
  by (simp add: indexjs_eval)

end
